theory Spec2Isabelle
  imports Main
begin

section \<open>Data model (src/types/logs.ts)\<close>

text \<open>
  A JavaScript string is modelled as a \<^typ>\<open>string\<close>; each \<^typ>\<open>char\<close> stands for one
  UTF-16 code unit in the range U+0000 .. U+00FF. Optional fields are \<open>option\<close>s.
\<close>

record LogEntry =
  timestamp :: string
  component :: string
  level :: string
  content :: string
  source :: "string option"
  hostname :: "string option"
  pid :: "string option"

record WindowsLog =
  LineId :: string
  Time :: string
  Component :: string
  Level :: string
  Content :: string

text \<open>
  \<open>LogDigest\<close> has fields \<open>component\<close> and \<open>level\<close> too; record fields are global
  names in HOL, so those of the digest carry the prefix \<open>d_\<close>.
\<close>

record LogDigest =
  d_component :: string
  d_level :: string
  frequency :: nat
  sampleContent :: string
  fingerprint :: string

text \<open>
  The accumulator value of the \<open>reduce\<close> in \<open>processLogs\<close>:
  \<open>{component, level, count, sample, fingerprint}\<close>, fields prefixed \<open>c_\<close> where they clash.
\<close>

record Cluster =
  c_component :: string
  c_level :: string
  count :: nat
  sample :: string
  c_fingerprint :: string

text \<open>The argument type \<open>LogEntry[] | WindowsLog[]\<close> of \<open>processLogs\<close> and \<open>calculateStats\<close>.\<close>

datatype logs_input = Unified "LogEntry list" | Legacy "WindowsLog list"

section \<open>Digest builder (processLogs)\<close>

definition convertWindowsLog :: "WindowsLog \<Rightarrow> LogEntry" where
  "convertWindowsLog w =
     \<lparr>timestamp = Time w, component = Component w, level = Level w, content = Content w,
      source = Some ''Windows'', hostname = None, pid = None\<rparr>"

text \<open>
  \<open>logs.length > 0 && 'LineId' in logs[0] ? logs.map(convertWindowsLog) : logs\<close>.
  A \<open>LogEntry\<close> has no property \<open>LineId\<close>, a \<open>WindowsLog\<close> has; an empty array is
  returned as it is.
\<close>

fun unifiedLogs :: "logs_input \<Rightarrow> LogEntry list" where
  "unifiedLogs (Unified logs) = logs"
| "unifiedLogs (Legacy logs) = (if length logs > 0 then map convertWindowsLog logs else [])"

text \<open>The template string \<open>`${log.component}-${log.level}`\<close>.\<close>

definition key_of :: "LogEntry \<Rightarrow> string" where
  "key_of log = component log @ ''-'' @ level log"

text \<open>
  The accumulator object \<open>acc\<close> is an association list in insertion order. Every key
  contains the character \<open>-\<close>, so it is neither an array index (which \<open>Object.values\<close>
  would list first) nor the name of a property inherited from \<open>Object.prototype\<close>:
  \<open>acc[key]\<close> is \<open>undefined\<close> exactly when the key was never stored, and
  \<open>Object.values\<close> lists the clusters in the order of their first appearance.
\<close>

type_synonym clusters = "(string \<times> Cluster) list"

text \<open>\<open>acc[key].count++\<close>\<close>

definition increment :: "string \<Rightarrow> clusters \<Rightarrow> clusters" where
  "increment key acc =
     map (\<lambda>(k, c). if k = key then (k, c\<lparr>count := count c + 1\<rparr>) else (k, c)) acc"

text \<open>The callback of \<open>unifiedLogs.reduce\<close>.\<close>

definition cluster_step :: "clusters \<Rightarrow> LogEntry \<Rightarrow> clusters" where
  "cluster_step acc log =
     (let key = key_of log;
          acc1 = (if map_of acc key = None
                  then acc @ [(key, \<lparr>c_component = component log, c_level = level log,
                                      count = 0, sample = content log, c_fingerprint = key\<rparr>)]
                  else acc)
      in increment key acc1)"

definition cluster_logs :: "LogEntry list \<Rightarrow> clusters" where
  "cluster_logs logs = foldl cluster_step [] logs"

text \<open>
  JavaScript numbers as far as the comparator needs them: an integer or \<open>NaN\<close>.
\<close>

datatype jsnum = Num int | NaN

fun js_minus :: "jsnum \<Rightarrow> jsnum \<Rightarrow> jsnum" where
  "js_minus (Num a) (Num b) = Num (a - b)"
| "js_minus _ _ = NaN"

text \<open>
  The names of the properties every plain object inherits from \<open>Object.prototype\<close>.
  \<open>levelPriority\<close> is an object literal, so \<open>levelPriority[l]\<close> for one of these names is
  the inherited function (or, for \<open>__proto__\<close>, the prototype object): a truthy value that
  \<open>||\<close> keeps and that the subtraction converts to \<open>NaN\<close>.
\<close>

definition objectPrototypeNames :: "string list" where
  "objectPrototypeNames =
     [''constructor'', ''hasOwnProperty'', ''isPrototypeOf'', ''propertyIsEnumerable'',
      ''toLocaleString'', ''toString'', ''valueOf'', ''__proto__'',
      ''__defineGetter__'', ''__defineSetter__'', ''__lookupGetter__'', ''__lookupSetter__'']"

text \<open>
  \<open>(levelPriority[l] || 0)\<close> as the operand of the subtraction:
  own properties \<open>Error: 3, Warning: 2, Info: 1\<close>, inherited properties, else
  \<open>undefined || 0\<close>.
\<close>

definition levelPriority :: "string \<Rightarrow> jsnum" where
  "levelPriority l =
     (if l = ''Error'' then Num 3
      else if l = ''Warning'' then Num 2
      else if l = ''Info'' then Num 1
      else if l \<in> set objectPrototypeNames then NaN
      else Num 0)"

text \<open>The comparator passed to \<open>patterns.sort\<close>.\<close>

definition compareFn :: "Cluster \<Rightarrow> Cluster \<Rightarrow> jsnum" where
  "compareFn a b =
     (if count b \<noteq> count a then Num (int (count b) - int (count a))
      else js_minus (levelPriority (c_level b)) (levelPriority (c_level a)))"

text \<open>
  \<open>Array.prototype.sort\<close> is stable and reads a comparator result \<open>NaN\<close> as \<open>+0\<close>
  (ECMAScript, CompareArrayElements). It is modelled as a stable insertion sort:
  \<open>x\<close>, which came before \<open>y\<close>, stays before \<open>y\<close> unless the comparator is positive.
  For a consistent comparator every stable sort returns this list. Where the comparator
  is not consistent (it returns \<open>NaN\<close> for some pairs) ECMAScript leaves the order of
  three or more elements to the engine, and the model fixes the insertion sort; on two
  elements compared as equal every engine keeps the input order, as the model does.
\<close>

definition sortCompare :: "('a \<Rightarrow> 'a \<Rightarrow> jsnum) \<Rightarrow> 'a \<Rightarrow> 'a \<Rightarrow> int" where
  "sortCompare comparefn x y = (case comparefn x y of NaN \<Rightarrow> 0 | Num v \<Rightarrow> v)"

fun js_insert :: "('a \<Rightarrow> 'a \<Rightarrow> jsnum) \<Rightarrow> 'a \<Rightarrow> 'a list \<Rightarrow> 'a list" where
  "js_insert comparefn x [] = [x]"
| "js_insert comparefn x (y # ys) =
     (if sortCompare comparefn x y \<le> 0 then x # y # ys else y # js_insert comparefn x ys)"

definition js_sort :: "('a \<Rightarrow> 'a \<Rightarrow> jsnum) \<Rightarrow> 'a list \<Rightarrow> 'a list" where
  "js_sort comparefn xs = foldr (js_insert comparefn) xs []"

definition toDigest :: "Cluster \<Rightarrow> LogDigest" where
  "toDigest p =
     \<lparr>d_component = c_component p, d_level = c_level p, frequency = count p,
      sampleContent = sample p, fingerprint = c_fingerprint p\<rparr>"

definition processLogs :: "logs_input \<Rightarrow> LogDigest list" where
  "processLogs logs =
     (let clusters = cluster_logs (unifiedLogs logs);
          patterns = map snd clusters;
          sorted_patterns = js_sort compareFn patterns
      in map toDigest (take 100 sorted_patterns))"

section \<open>String primitives\<close>

text \<open>
  \<open>String.prototype.toLowerCase\<close> on the code units U+0000 .. U+00FF: the letters
  \<open>A\<close> .. \<open>Z\<close> and U+00C0 .. U+00DE (without the multiplication sign U+00D7) move up
  by 32, every other code unit stays.
\<close>

definition toLowerChar :: "char \<Rightarrow> char" where
  "toLowerChar c =
     (let n = (of_char c :: nat)
      in if (65 \<le> n \<and> n \<le> 90) \<or> (192 \<le> n \<and> n \<le> 222 \<and> n \<noteq> 215)
         then char_of (n + 32) else c)"

definition toLowerCase :: "string \<Rightarrow> string" where
  "toLowerCase s = map toLowerChar s"

text \<open>
  White space and line terminators of ECMAScript below U+0100: TAB, LF, VT, FF, CR, SP
  and the no-break space U+00A0.
\<close>

definition isWhiteSpace :: "char \<Rightarrow> bool" where
  "isWhiteSpace c = ((of_char c :: nat) \<in> {9, 10, 11, 12, 13, 32, 160})"

definition trim :: "string \<Rightarrow> string" where
  "trim s = rev (dropWhile isWhiteSpace (rev (dropWhile isWhiteSpace s)))"

fun startsWith :: "string \<Rightarrow> string \<Rightarrow> bool" where
  "startsWith s [] = True"
| "startsWith [] (p # ps) = False"
| "startsWith (c # cs) (p # ps) = (c = p \<and> startsWith cs ps)"

text \<open>\<open>s.includes(sub)\<close>: \<open>sub\<close> occurs in \<open>s\<close> as a contiguous substring.\<close>

fun str_includes :: "string \<Rightarrow> string \<Rightarrow> bool" where
  "str_includes [] sub = (sub = [])"
| "str_includes (c # cs) sub = (startsWith (c # cs) sub \<or> str_includes cs sub)"

text \<open>
  \<open>s.match(/a|b|c/)\<close> for a regular expression that is an alternation of literal
  words, without anchors: the result is non-null iff one of the words occurs in \<open>s\<close>.
\<close>

definition matchAny :: "string \<Rightarrow> string list \<Rightarrow> bool" where
  "matchAny s words = list_ex (str_includes s) words"

text \<open>\<open>a || b\<close> on strings: the empty string is the only falsy string.\<close>

definition orElse :: "string \<Rightarrow> string \<Rightarrow> string" where
  "orElse a b = (if a \<noteq> [] then a else b)"

section \<open>Stats aggregator (calculateStats)\<close>

record Stats =
  totalLogs :: nat
  uniquePatterns :: nat
  errorCount :: nat
  warningCount :: nat

text \<open>\<open>new Set(xs).size\<close>: the number of distinct elements of \<open>xs\<close>.\<close>

definition set_size :: "'a list \<Rightarrow> nat" where
  "set_size xs = length (remdups xs)"

definition calculateStats :: "logs_input \<Rightarrow> Stats" where
  "calculateStats logs =
     (let unified = unifiedLogs logs;
          errorCount = length (filter (\<lambda>log. toLowerCase (level log) = ''error'') unified);
          warningCount = length (filter (\<lambda>log. toLowerCase (level log) = ''warning'') unified);
          uniquePatterns = set_size (map key_of unified)
      in \<lparr>totalLogs = length unified, uniquePatterns = uniquePatterns,
          errorCount = errorCount, warningCount = warningCount\<rparr>)"

section \<open>Level normalizer (normalizeLevel)\<close>

definition normalizeLevel :: "string \<Rightarrow> string" where
  "normalizeLevel level' =
     (let levelLower = trim (toLowerCase level')
      in if matchAny levelLower
              [''error'', ''err'', ''critical'', ''crit'', ''fatal'', ''emergency'', ''emerg'']
         then ''Error''
         else if matchAny levelLower [''warn'', ''warning''] then ''Warning''
         else if matchAny levelLower [''info'', ''information'', ''notice''] then ''Info''
         else if matchAny levelLower [''debug'', ''trace'', ''verbose''] then ''Debug''
         else if levelLower = ''0'' \<or> levelLower = ''1'' \<or> levelLower = ''2'' then ''Error''
         else if levelLower = ''3'' \<or> levelLower = ''4'' then ''Warning''
         else if levelLower = ''5'' \<or> levelLower = ''6'' then ''Info''
         else if levelLower = ''7'' then ''Debug''
         else orElse level' ''Info'')"

section \<open>Format detector (detectLogFormat)\<close>

datatype LogFormat =
  Windows | LinuxSyslog | Apache | Hadoop | Spark | OpenSSH | OpenStack | Thunderbird | Auto

text \<open>The string value of a \<open>LogFormat\<close>, as stored in \<open>source\<close> by the fallback record.\<close>

fun format_tag :: "LogFormat \<Rightarrow> string" where
  "format_tag Windows = ''windows''"
| "format_tag LinuxSyslog = ''linux-syslog''"
| "format_tag Apache = ''apache''"
| "format_tag Hadoop = ''hadoop''"
| "format_tag Spark = ''spark''"
| "format_tag OpenSSH = ''openssh''"
| "format_tag OpenStack = ''openstack''"
| "format_tag Thunderbird = ''thunderbird''"
| "format_tag Auto = ''auto''"

text \<open>
  A row (\<open>row: any\<close>) is what \<open>Papa.parse\<close> with \<open>header: true\<close> delivers: an object
  whose properties are the header names and whose values are strings, here a map
  \<open>Fields f\<close>. \<open>Unreadable msg\<close> stands for a value without properties (\<open>null\<close>,
  \<open>undefined\<close>): every property access \<open>row[...]\<close> on it throws a \<open>TypeError\<close> with
  the message \<open>msg\<close>. A thrown \<open>Error\<close> (or \<open>TypeError\<close>) is \<open>Error message\<close>.
  The names the parsers look up are headers or fixed keys such as \<open>message\<close>, none of
  them the name of a property inherited from \<open>Object.prototype\<close>, and the first header,
  which the detector looks up, is an own property of every row: a lookup is a lookup in
  the map.
\<close>

datatype row = Unreadable string | Fields "string \<rightharpoonup> string"

datatype error = Error string

text \<open>\<open>String(f[name] || '')\<close>\<close>

definition field :: "(string \<rightharpoonup> string) \<Rightarrow> string \<Rightarrow> string" where
  "field f name = (case f name of None \<Rightarrow> [] | Some v \<Rightarrow> v)"

text \<open>
  The callback of \<open>sampleRows.some\<close>, run over the rows from the left: \<open>some\<close> stops at
  the first row for which it is true, and an exception thrown on the way leaves it.
  \<open>headers[0] || ''\<close> is the first header, or the empty string when there is none.
\<close>

fun sshContent :: "string list \<Rightarrow> row list \<Rightarrow> error + bool" where
  "sshContent headers [] = Inr False"
| "sshContent headers (Unreadable msg # rows) = Inl (Error msg)"
| "sshContent headers (Fields f # rows) =
     (let content = toLowerCase (field f (case headers of [] \<Rightarrow> [] | h # _ \<Rightarrow> h))
      in if str_includes content ''sshd'' \<or> str_includes content ''connection''
            \<or> str_includes content ''authentication''
         then Inr True
         else sshContent headers rows)"

definition detectLogFormat :: "string list \<Rightarrow> row list \<Rightarrow> error + LogFormat" where
  "detectLogFormat headers sampleRows =
     (let headerLower = map toLowerCase headers
      in if ''lineid'' \<in> set headerLower \<and> ''component'' \<in> set headerLower
            \<and> ''level'' \<in> set headerLower
         then Inr Windows
         else if ''timestamp'' \<in> set headerLower
                 \<and> (''hostname'' \<in> set headerLower \<or> ''host'' \<in> set headerLower)
         then Inr LinuxSyslog
         else if ''remotehost'' \<in> set headerLower \<or> ''request'' \<in> set headerLower
                 \<or> ''status'' \<in> set headerLower
         then Inr Apache
         else if ''logtime'' \<in> set headerLower
                 \<and> (''level'' \<in> set headerLower \<or> ''priority'' \<in> set headerLower)
         then Inr Hadoop
         else if ''timestamp'' \<in> set headerLower \<and> ''logger'' \<in> set headerLower
         then Inr Spark
         else (case sshContent headers sampleRows of
                 Inl e \<Rightarrow> Inl e
               | Inr True \<Rightarrow> Inr OpenSSH
               | Inr False \<Rightarrow> Inr Auto))"

section \<open>Row parsers\<close>

text \<open>
  The closure \<open>getValue\<close> of \<open>parseWindowsLog\<close>: \<open>headers.find\<close> returns the first
  header equal to the key up to case; \<open>header || key\<close> is the key when none is found or
  the header found is the empty string.
\<close>

definition headerOr :: "string option \<Rightarrow> string \<Rightarrow> string" where
  "headerOr header key = (case header of None \<Rightarrow> key | Some h \<Rightarrow> orElse h key)"

definition getValue :: "(string \<rightharpoonup> string) \<Rightarrow> string list \<Rightarrow> string \<Rightarrow> string" where
  "getValue f headers key =
     (let header = find (\<lambda>h. toLowerCase h = toLowerCase key) headers
      in field f (headerOr header key))"

text \<open>
  The closure \<open>getValue(key, alt)\<close> of the other parsers; every call in the source
  passes \<open>alt\<close>, possibly as the empty string.
\<close>

definition getValueAlt ::
  "(string \<rightharpoonup> string) \<Rightarrow> string list \<Rightarrow> string \<Rightarrow> string \<Rightarrow> string" where
  "getValueAlt f headers key alt =
     (let header = find (\<lambda>h. toLowerCase h = toLowerCase key
                              \<or> toLowerCase h = toLowerCase (orElse alt [])) headers
      in field f (headerOr header key))"

definition parseWindowsLog :: "row \<Rightarrow> string list \<Rightarrow> error + LogEntry" where
  "parseWindowsLog row headers =
     (case row of
        Unreadable msg \<Rightarrow> Inl (Error msg)
      | Fields f \<Rightarrow>
          Inr \<lparr>timestamp = getValue f headers ''Time'',
               component = getValue f headers ''Component'',
               level = getValue f headers ''Level'',
               content = getValue f headers ''Content'',
               source = Some ''Windows'', hostname = None, pid = None\<rparr>)"

definition parseLinuxSyslog :: "row \<Rightarrow> string list \<Rightarrow> error + LogEntry" where
  "parseLinuxSyslog row headers =
     (case row of
        Unreadable msg \<Rightarrow> Inl (Error msg)
      | Fields f \<Rightarrow>
          (let timestamp = getValueAlt f headers ''timestamp'' ''date'' @ '' ''
                             @ getValueAlt f headers ''time'' [];
               component = orElse (getValueAlt f headers ''program'' ''service'')
                             (orElse (getValueAlt f headers ''component'' ''daemon'')
                                     (getValueAlt f headers ''logger'' []));
               level = orElse (getValueAlt f headers ''level'' ''priority'')
                         (orElse (getValueAlt f headers ''severity'' []) ''Info'');
               content = orElse (getValueAlt f headers ''message'' ''msg'')
                           (getValueAlt f headers ''content'' [])
           in Inr \<lparr>timestamp = trim timestamp,
                   component = orElse component ''unknown'',
                   level = normalizeLevel level,
                   content = content,
                   source = Some ''Linux'',
                   hostname = Some (getValueAlt f headers ''hostname'' ''host''),
                   pid = Some (getValueAlt f headers ''pid'' ''processid'')\<rparr>))"

text \<open>
  \<open>parseInt(s)\<close> with no radix: leading white space, an optional sign, an optional
  prefix \<open>0x\<close> or \<open>0X\<close> (then the digits are hexadecimal), and the longest run of
  digits; \<open>None\<close> is \<open>NaN\<close>, the result when there is no digit.
\<close>

definition isDigit :: "nat \<Rightarrow> char \<Rightarrow> bool" where
  "isDigit radix c =
     (let n = (of_char c :: nat)
      in (48 \<le> n \<and> n \<le> 57) \<or> (radix = 16 \<and> ((97 \<le> n \<and> n \<le> 102) \<or> (65 \<le> n \<and> n \<le> 70))))"

definition digitValue :: "char \<Rightarrow> nat" where
  "digitValue c =
     (let n = (of_char c :: nat)
      in if n \<le> 57 then n - 48 else if 97 \<le> n then n - 87 else n - 55)"

definition parseInt :: "string \<Rightarrow> int option" where
  "parseInt s =
     (let s1 = dropWhile isWhiteSpace s;
          sign = (if startsWith s1 ''-'' then - 1 else 1 :: int);
          s2 = (if startsWith s1 ''+'' \<or> startsWith s1 ''-'' then drop 1 s1 else s1);
          hex = (startsWith s2 ''0x'' \<or> startsWith s2 ''0X'');
          radix = (if hex then 16 else 10 :: nat);
          s3 = (if hex then drop 2 s2 else s2);
          z = takeWhile (isDigit radix) s3
      in if z = [] then None
         else Some (sign * int (foldl (\<lambda>acc c. acc * radix + digitValue c) 0 z)))"

text \<open>\<open>parseInt(status) >= n\<close>: a comparison with \<open>NaN\<close> is false.\<close>

definition atLeastNum :: "int option \<Rightarrow> int \<Rightarrow> bool" where
  "atLeastNum v n = (case v of None \<Rightarrow> False | Some i \<Rightarrow> i \<ge> n)"

definition parseApacheLog :: "row \<Rightarrow> string list \<Rightarrow> error + LogEntry" where
  "parseApacheLog row headers =
     (case row of
        Unreadable msg \<Rightarrow> Inl (Error msg)
      | Fields f \<Rightarrow>
          (let timestamp = getValueAlt f headers ''timestamp'' ''time'';
               status = getValueAlt f headers ''status'' ''code'';
               request = getValueAlt f headers ''request'' ''uri'';
               level = (if atLeastNum (parseInt status) 500 then ''Error''
                        else if atLeastNum (parseInt status) 400 then ''Warning''
                        else ''Info'')
           in Inr \<lparr>timestamp = timestamp,
                   component = ''apache'',
                   level = level,
                   content = getValueAlt f headers ''method'' [] @ '' '' @ request @ '' - ''
                               @ status @ '' - '' @ getValueAlt f headers ''referer'' [],
                   source = Some ''Apache'',
                   hostname = Some (getValueAlt f headers ''remotehost'' ''host''),
                   pid = None\<rparr>))"

definition parseHadoopLog :: "row \<Rightarrow> string list \<Rightarrow> error + LogEntry" where
  "parseHadoopLog row headers =
     (case row of
        Unreadable msg \<Rightarrow> Inl (Error msg)
      | Fields f \<Rightarrow>
          Inr \<lparr>timestamp = getValueAlt f headers ''logtime'' ''timestamp'',
               component = orElse (getValueAlt f headers ''logger'' ''component'') ''hadoop'',
               level = normalizeLevel (getValueAlt f headers ''level'' ''priority''),
               content = orElse (getValueAlt f headers ''message'' ''msg'')
                           (getValueAlt f headers ''content'' []),
               source = Some ''Hadoop'', hostname = None, pid = None\<rparr>)"

definition parseSparkLog :: "row \<Rightarrow> string list \<Rightarrow> error + LogEntry" where
  "parseSparkLog row headers =
     (case row of
        Unreadable msg \<Rightarrow> Inl (Error msg)
      | Fields f \<Rightarrow>
          Inr \<lparr>timestamp = getValueAlt f headers ''timestamp'' ''time'',
               component = orElse (getValueAlt f headers ''logger'' ''component'') ''spark'',
               level = normalizeLevel (getValueAlt f headers ''level'' ''priority''),
               content = orElse (getValueAlt f headers ''message'' ''msg'')
                           (getValueAlt f headers ''content'' []),
               source = Some ''Spark'', hostname = None, pid = None\<rparr>)"

definition parseOpenSSHLog :: "row \<Rightarrow> string list \<Rightarrow> error + LogEntry" where
  "parseOpenSSHLog row headers =
     (case row of
        Unreadable msg \<Rightarrow> Inl (Error msg)
      | Fields f \<Rightarrow>
          (let content = orElse (getValueAlt f headers ''message'' ''msg'')
                           (getValueAlt f headers ''content'' []);
               level = (if str_includes (toLowerCase content) ''error''
                           \<or> str_includes (toLowerCase content) ''failed''
                        then ''Error''
                        else if str_includes (toLowerCase content) ''warning''
                        then ''Warning''
                        else ''Info'')
           in Inr \<lparr>timestamp = getValueAlt f headers ''timestamp'' ''date'',
                   component = ''sshd'',
                   level = level,
                   content = content,
                   source = Some ''OpenSSH'',
                   hostname = Some (getValueAlt f headers ''hostname'' ''host''),
                   pid = None\<rparr>))"

text \<open>
  \<open>parseLogRow\<close>: the \<open>switch\<close> on the format. The branch \<open>case 'auto': default:\<close>
  also takes the formats \<open>openstack\<close> and \<open>thunderbird\<close>, which have no case of their
  own. It calls itself once, with the format detected on the single row.
\<close>

function (sequential) parseLogRow :: "row \<Rightarrow> string list \<Rightarrow> LogFormat \<Rightarrow> error + LogEntry" where
  "parseLogRow row headers Windows = parseWindowsLog row headers"
| "parseLogRow row headers LinuxSyslog = parseLinuxSyslog row headers"
| "parseLogRow row headers Apache = parseApacheLog row headers"
| "parseLogRow row headers Hadoop = parseHadoopLog row headers"
| "parseLogRow row headers Spark = parseSparkLog row headers"
| "parseLogRow row headers OpenSSH = parseOpenSSHLog row headers"
| "parseLogRow row headers format =
     (case detectLogFormat headers [row] of
        Inl e \<Rightarrow> Inl e
      | Inr detected \<Rightarrow>
          if detected \<noteq> Auto then parseLogRow row headers detected
          else parseLinuxSyslog row headers)"
  by pat_completeness auto
termination
proof (relation "measure (\<lambda>(row, headers, format).
          if format = Auto \<or> format = OpenStack \<or> format = Thunderbird then 1 else 0)")
  show "wf (measure (\<lambda>(row, headers, format).
          if format = Auto \<or> format = OpenStack \<or> format = Thunderbird then 1 else (0::nat)))"
    by simp
qed (auto simp: detectLogFormat_def Let_def split: if_splits sum.splits bool.splits)

section \<open>CSV ingestion (parseCSV)\<close>

text \<open>
  \<open>Papa.parse\<close> belongs to a library. Its outcome is the input of the model: either the
  \<open>complete\<close> callback runs with \<open>results.data\<close> and \<open>results.meta.fields\<close> (each
  possibly \<open>undefined\<close>), or the \<open>error\<close> callback runs with an error message
  (empty when the error has none). The promise is rejected with \<open>Inl\<close> and resolved
  with \<open>Inr\<close>.
\<close>

datatype papa_outcome = Complete "row list option" "string list option" | Failed string

text \<open>
  The record substituted for a row whose parser throws. \<open>clock i\<close> is the reading of
  \<open>new Date().toISOString()\<close> at row number \<open>i\<close>; \<open>stringify\<close> is \<open>JSON.stringify\<close>
  (the empty string where it returns \<open>undefined\<close>, which the content filter treats alike).
\<close>

definition fallbackEntry :: "string \<Rightarrow> string \<Rightarrow> LogFormat \<Rightarrow> LogEntry" where
  "fallbackEntry now serialized detectedFormat =
     \<lparr>timestamp = now, component = ''unknown'', level = ''Info'', content = serialized,
      source = Some (format_tag detectedFormat), hostname = None, pid = None\<rparr>"

definition parseRowOrFallback ::
  "(nat \<Rightarrow> string) \<Rightarrow> (row \<Rightarrow> string) \<Rightarrow> string list \<Rightarrow> LogFormat \<Rightarrow> nat \<times> row \<Rightarrow> LogEntry" where
  "parseRowOrFallback clock stringify headers detectedFormat ir =
     (case parseLogRow (snd ir) headers detectedFormat of
        Inr entry \<Rightarrow> entry
      | Inl e \<Rightarrow> fallbackEntry (clock (fst ir)) (stringify (snd ir)) detectedFormat)"

text \<open>\<open>log.content && log.content.trim().length > 0\<close>\<close>

definition hasContent :: "LogEntry \<Rightarrow> bool" where
  "hasContent log = (content log \<noteq> [] \<and> length (trim (content log)) > 0)"

definition parseCSV ::
  "(nat \<Rightarrow> string) \<Rightarrow> (row \<Rightarrow> string) \<Rightarrow> papa_outcome \<Rightarrow> LogFormat \<Rightarrow> error + LogEntry list" where
  "parseCSV clock stringify outcome format =
     (case outcome of
        Failed msg \<Rightarrow> Inl (Error (''CSV parsing error: '' @ orElse msg ''Unknown error''))
      | Complete data metaFields \<Rightarrow>
          (case data of
             None \<Rightarrow> Inl (Error ''CSV file is empty or has no valid data'')
           | Some rows \<Rightarrow>
               if length rows = 0 then Inl (Error ''CSV file is empty or has no valid data'')
               else
                 (let headers = (case metaFields of None \<Rightarrow> [] | Some hs \<Rightarrow> hs)
                  in case (if format = Auto then detectLogFormat headers (take 5 rows)
                           else Inr format) of
                       Inl (Error msg) \<Rightarrow> Inl (Error (''Failed to parse CSV data: '' @ msg))
                     | Inr detectedFormat \<Rightarrow>
                         Inr (filter hasContent
                                (map (parseRowOrFallback clock stringify headers detectedFormat)
                                     (enumerate 0 rows))))))"

section \<open>The claims' vocabulary\<close>

text \<open>
  The priority table as the specification words it: \<open>Error\<close> 3, \<open>Warning\<close> 2,
  \<open>Info\<close> 1, any other level 0.
\<close>

definition specPriority :: "string \<Rightarrow> int" where
  "specPriority l =
     (if l = ''Error'' then 3 else if l = ''Warning'' then 2 else if l = ''Info'' then 1 else 0)"

text \<open>The order the specification requires between a digest entry and its successor.\<close>

definition rankedBefore :: "LogDigest \<Rightarrow> LogDigest \<Rightarrow> bool" where
  "rankedBefore a b =
     (frequency a > frequency b
      \<or> (frequency a = frequency b \<and> specPriority (d_level a) \<ge> specPriority (d_level b)))"

text \<open>Every pair of adjacent entries is in that order.\<close>

fun adjacentRanked :: "LogDigest list \<Rightarrow> bool" where
  "adjacentRanked (a # b # rest) = (rankedBefore a b \<and> adjacentRanked (b # rest))"
| "adjacentRanked _ = True"

text \<open>
  The detector as the specification words it: a table of header rules in priority order,
  each a test on the set of case-folded headers, the first rule that holds deciding; when
  none holds, the content check on the first column, then \<open>unknown\<close> (\<open>auto\<close>).
\<close>

definition headerRules :: "((string set \<Rightarrow> bool) \<times> LogFormat) list" where
  "headerRules =
     [(\<lambda>H. {''lineid'', ''component'', ''level''} \<subseteq> H, Windows),
      (\<lambda>H. ''timestamp'' \<in> H \<and> H \<inter> {''hostname'', ''host''} \<noteq> {}, LinuxSyslog),
      (\<lambda>H. H \<inter> {''remotehost'', ''request'', ''status''} \<noteq> {}, Apache),
      (\<lambda>H. ''logtime'' \<in> H \<and> H \<inter> {''level'', ''priority''} \<noteq> {}, Hadoop),
      (\<lambda>H. {''timestamp'', ''logger''} \<subseteq> H, Spark)]"

definition firstMatch :: "string set \<Rightarrow> LogFormat option" where
  "firstMatch H = map_option snd (find (\<lambda>rule. fst rule H) headerRules)"

definition detectBySpec :: "string list \<Rightarrow> row list \<Rightarrow> error + LogFormat" where
  "detectBySpec headers sampleRows =
     (case firstMatch (toLowerCase ` set headers) of
        Some format \<Rightarrow> Inr format
      | None \<Rightarrow> map_sum id (\<lambda>found. if found then OpenSSH else Auto)
                  (sshContent headers sampleRows))"

text \<open>
  The pattern groups and numeric codes of the level normalizer as the specification
  lists them, and the condition that a case-folded, trimmed level matches none of them.
\<close>

definition errorGroup :: "string list" where
  "errorGroup = [''error'', ''err'', ''critical'', ''crit'', ''fatal'', ''emergency'', ''emerg'']"

definition warningGroup :: "string list" where
  "warningGroup = [''warn'', ''warning'']"

definition infoGroup :: "string list" where
  "infoGroup = [''info'', ''information'', ''notice'']"

definition debugGroup :: "string list" where
  "debugGroup = [''debug'', ''trace'', ''verbose'']"

definition noTextMatch :: "string \<Rightarrow> bool" where
  "noTextMatch l =
     (\<not> matchAny l errorGroup \<and> \<not> matchAny l warningGroup \<and> \<not> matchAny l infoGroup
      \<and> \<not> matchAny l debugGroup)"

definition numericCodes :: "string list" where
  "numericCodes = [''0'', ''1'', ''2'', ''3'', ''4'', ''5'', ''6'', ''7'']"

definition unmatched :: "string \<Rightarrow> bool" where
  "unmatched level' =
     (noTextMatch (trim (toLowerCase level'))
      \<and> trim (toLowerCase level') \<notin> set numericCodes)"

text \<open>
  A row as \<open>Papa.parse\<close> builds it for a list of headers: an object whose properties are
  among the headers.
\<close>

definition readableWithin :: "string list \<Rightarrow> row \<Rightarrow> bool" where
  "readableWithin headers row =
     (case row of Unreadable msg \<Rightarrow> False | Fields f \<Rightarrow> dom f \<subseteq> set headers)"

section \<open>Example inputs\<close>

definition entry :: "string \<Rightarrow> string \<Rightarrow> string \<Rightarrow> LogEntry" where
  "entry cmp lvl msg =
     \<lparr>timestamp = ''2016-09-28 04:30:30'', component = cmp, level = lvl, content = msg,
      source = None, hostname = None, pid = None\<rparr>"

definition exampleLogs :: "LogEntry list" where
  "exampleLogs =
     [entry ''disk'' ''Error'' ''disk full'',
      entry ''net'' ''Info'' ''link up'',
      entry ''disk'' ''Error'' ''disk failing'']"

text \<open>A list of 101 records with 101 distinct keys.\<close>

definition manyLogs :: "LogEntry list" where
  "manyLogs = map (\<lambda>n. entry (replicate n (CHR ''a'')) ''Info'' ''tick'') [0..<101]"

section \<open>Evaluating the string primitives\<close>

lemma char_eq_char_of: "(c = char_of (n::nat)) \<longleftrightarrow> (take_bit 8 n = of_char c)"
  using char_of_eq_iff [of n c] by auto

lemmas string_eval = trim_def toLowerCase_def toLowerChar_def isWhiteSpace_def matchAny_def
  orElse_def char_of_eq_iff char_eq_char_of

section \<open>The clusters built by the fold\<close>

lemma find_snoc:
  "find P (xs @ [x]) = (case find P xs of None \<Rightarrow> (if P x then Some x else None) | Some y \<Rightarrow> Some y)"
  by (induction xs) auto

lemma map_fst_increment: "map fst (increment key acc) = map fst acc"
  by (induction acc) (auto simp: increment_def)

lemma in_increment:
  "(k, c) \<in> set (increment key acc) \<longleftrightarrow>
     (\<exists>c0. (k, c0) \<in> set acc \<and> c = (if k = key then c0\<lparr>count := count c0 + 1\<rparr> else c0))"
  unfolding increment_def by (force split: if_splits)

lemma cluster_logs_snoc: "cluster_logs (logs @ [l]) = cluster_step (cluster_logs logs) l"
  by (simp add: cluster_logs_def)

lemma keys_cluster_step:
  "map fst (cluster_step acc l) =
     (if key_of l \<in> set (map fst acc) then map fst acc else map fst acc @ [key_of l])"
  by (simp add: cluster_step_def Let_def map_fst_increment map_of_eq_None_iff)

lemma keys_cluster_logs:
  "distinct (map fst (cluster_logs logs)) \<and> set (map fst (cluster_logs logs)) = key_of ` set logs"
proof (induction logs rule: rev_induct)
  case Nil
  show ?case by (simp add: cluster_logs_def)
next
  case (snoc l logs)
  then show ?case
    by (auto simp: cluster_logs_snoc keys_cluster_step)
qed

lemma cluster_logs_entry:
  "(k, c) \<in> set (cluster_logs logs) \<Longrightarrow>
     c_fingerprint c = k \<and> count c = length (filter (\<lambda>l. key_of l = k) logs) \<and>
     (\<exists>r. find (\<lambda>l. key_of l = k) logs = Some r \<and>
          c_component c = component r \<and> c_level c = level r \<and> sample c = content r)"
proof (induction logs arbitrary: c rule: rev_induct)
  case Nil
  then show ?case by (simp add: cluster_logs_def)
next
  case (snoc l logs)
  let ?acc = "cluster_logs logs"
  from snoc.prems obtain c0 where
    c0: "(k, c0) \<in> set (if map_of ?acc (key_of l) = None
                  then ?acc @ [(key_of l, \<lparr>c_component = component l, c_level = level l,
                                      count = 0, sample = content l, c_fingerprint = key_of l\<rparr>)]
                  else ?acc)"
    and c: "c = (if k = key_of l then c0\<lparr>count := count c0 + 1\<rparr> else c0)"
    by (auto simp: cluster_logs_snoc cluster_step_def Let_def in_increment)
  show ?case
  proof (cases "(k, c0) \<in> set ?acc")
    case True
    from snoc.IH [OF True] show ?thesis
      using c by (auto simp: find_snoc)
  next
    case False
    with c0 have new: "map_of ?acc (key_of l) = None" "k = key_of l"
      "c0 = \<lparr>c_component = component l, c_level = level l,
                                      count = 0, sample = content l, c_fingerprint = key_of l\<rparr>"
      by (auto split: if_splits)
    from new(1) have "key_of l \<notin> key_of ` set logs"
      using keys_cluster_logs [of logs] by (simp add: map_of_eq_None_iff)
    then have "\<forall>x \<in> set logs. key_of x \<noteq> key_of l" by (auto simp: image_iff)
    then have none: "filter (\<lambda>x. key_of x = key_of l) logs = []" "find (\<lambda>x. key_of x = key_of l) logs = None"
      by (simp_all add: filter_empty_conv find_None_iff)
    show ?thesis using c new none by (simp add: find_snoc)
  qed
qed

lemma set_js_insert: "set (js_insert f x ys) = insert x (set ys)"
  by (induction ys) auto

lemma length_js_insert: "length (js_insert f x ys) = Suc (length ys)"
  by (induction ys) auto

lemma distinct_map_js_insert:
  "distinct (map g (js_insert f x ys)) \<longleftrightarrow> g x \<notin> g ` set ys \<and> distinct (map g ys)"
  by (induction ys) (auto simp: set_js_insert)

lemma set_js_sort: "set (js_sort f xs) = set xs"
  by (induction xs) (auto simp: js_sort_def set_js_insert)

lemma length_js_sort: "length (js_sort f xs) = length xs"
  by (induction xs) (auto simp: js_sort_def length_js_insert)

lemma distinct_map_js_sort: "distinct (map g (js_sort f xs)) \<longleftrightarrow> distinct (map g xs)"
proof (induction xs)
  case Nil
  show ?case by (simp add: js_sort_def)
next
  case (Cons x xs)
  have "js_sort f (x # xs) = js_insert f x (js_sort f xs)" by (simp add: js_sort_def)
  then show ?case using Cons by (simp add: distinct_map_js_insert set_js_sort)
qed

lemma fingerprint_snd_cluster_logs:
  "map c_fingerprint (map snd (cluster_logs logs)) = map fst (cluster_logs logs)"
  using cluster_logs_entry [of _ _ logs] by (auto simp: comp_def)

lemma length_cluster_logs: "length (cluster_logs logs) = card (key_of ` set logs)"
proof -
  have "card (set (map fst (cluster_logs logs))) = length (map fst (cluster_logs logs))"
    using keys_cluster_logs [of logs] by (intro distinct_card) simp
  then show ?thesis using keys_cluster_logs [of logs] by simp
qed

lemma fingerprints_processLogs:
  "map fingerprint (processLogs logs) =
     take 100 (map c_fingerprint (js_sort compareFn (map snd (cluster_logs (unifiedLogs logs)))))"
  by (simp add: processLogs_def Let_def toDigest_def comp_def take_map)

text \<open>The keys of \<open>manyLogs\<close> are pairwise distinct.\<close>

lemma card_keys_manyLogs: "card (key_of ` set manyLogs) = 101"
proof -
  have inj: "inj_on (\<lambda>n. key_of (entry (replicate n (CHR ''a'')) ''Info'' ''tick'')) {0..<101}"
    by (rule inj_onI) (simp add: key_of_def entry_def)
  have "key_of ` set manyLogs
          = (\<lambda>n. key_of (entry (replicate n (CHR ''a'')) ''Info'' ''tick'')) ` {0..<101}"
    by (simp add: manyLogs_def image_image)
  then show ?thesis using inj by (simp add: card_image)
qed

section \<open>Claims about the digest\<close>

text \<open>
  C1. The digest holds at most one entry per fingerprint, every fingerprint in it is the
  key of some input record, and its length is the minimum of 100 and the number of
  distinct keys \<open>component-level\<close> of the input; so it never exceeds 100.
\<close>

theorem digest_bounded_one_entry_per_fingerprint:
  "distinct (map fingerprint (processLogs logs))
   \<and> fingerprint ` set (processLogs logs) \<subseteq> key_of ` set (unifiedLogs logs)
   \<and> length (processLogs logs) = min 100 (card (key_of ` set (unifiedLogs logs)))
   \<and> length (processLogs logs) \<le> 100"
proof -
  let ?cs = "map snd (cluster_logs (unifiedLogs logs))"
  have d: "distinct (map c_fingerprint (js_sort compareFn ?cs))"
    using keys_cluster_logs [of "unifiedLogs logs"]
    by (simp only: distinct_map_js_sort fingerprint_snd_cluster_logs)
  have 1: "distinct (map fingerprint (processLogs logs))"
    unfolding fingerprints_processLogs using d by (rule distinct_take)
  have "set (map fingerprint (processLogs logs)) \<subseteq> set (map c_fingerprint (js_sort compareFn ?cs))"
    unfolding fingerprints_processLogs by (rule set_take_subset)
  also have "\<dots> = set (map c_fingerprint ?cs)" by (simp only: set_map set_js_sort)
  also have "\<dots> = key_of ` set (unifiedLogs logs)"
    using keys_cluster_logs [of "unifiedLogs logs"] by (simp only: fingerprint_snd_cluster_logs)
  finally have 2: "fingerprint ` set (processLogs logs) \<subseteq> key_of ` set (unifiedLogs logs)" by simp
  have 3: "length (processLogs logs) = min 100 (card (key_of ` set (unifiedLogs logs)))"
    by (simp add: processLogs_def Let_def length_js_sort length_cluster_logs min.commute)
  from 1 2 3 show ?thesis by simp
qed

theorem digest_bounded_one_entry_per_fingerprint_witness:
  "distinct (map fingerprint (processLogs (Unified exampleLogs)))
   \<and> fingerprint ` set (processLogs (Unified exampleLogs)) \<subseteq> {''disk-Error'', ''net-Info''}
   \<and> length (processLogs (Unified exampleLogs)) = 2
   \<and> length manyLogs = 101
   \<and> distinct (map fingerprint (processLogs (Unified manyLogs)))
   \<and> length (processLogs (Unified manyLogs)) = 100"
proof -
  have small: "distinct (map fingerprint (processLogs (Unified exampleLogs)))
   \<and> fingerprint ` set (processLogs (Unified exampleLogs)) \<subseteq> {''disk-Error'', ''net-Info''}
   \<and> length (processLogs (Unified exampleLogs)) = 2"
    using digest_bounded_one_entry_per_fingerprint [of "Unified exampleLogs"]
    by (auto simp: exampleLogs_def entry_def key_of_def card_insert_if)
  have big: "length manyLogs = 101
   \<and> distinct (map fingerprint (processLogs (Unified manyLogs)))
   \<and> length (processLogs (Unified manyLogs)) = 100"
    using digest_bounded_one_entry_per_fingerprint [of "Unified manyLogs"]
    by (simp add: card_keys_manyLogs) (simp add: manyLogs_def)
  from small big show ?thesis by (simp only: simp_thms)
qed

subsection \<open>Ranking\<close>

lemma sortCompare_compareFn:
  assumes "c_level a \<notin> set objectPrototypeNames" "c_level b \<notin> set objectPrototypeNames"
  shows "(sortCompare compareFn a b \<le> 0) = rankedBefore (toDigest a) (toDigest b)"
  using assms
  by (auto simp: sortCompare_def compareFn_def levelPriority_def specPriority_def
        rankedBefore_def toDigest_def)

lemma rankedBefore_total: "rankedBefore a b \<or> rankedBefore b a"
  by (auto simp: rankedBefore_def)

lemma rankedBefore_trans: "rankedBefore a b \<Longrightarrow> rankedBefore b c \<Longrightarrow> rankedBefore a c"
  by (auto simp: rankedBefore_def)

lemma sorted_js_insert:
  assumes "\<forall>c \<in> set (x # ys). c_level c \<notin> set objectPrototypeNames"
    and "sorted_wrt (\<lambda>a b. rankedBefore (toDigest a) (toDigest b)) ys"
  shows "sorted_wrt (\<lambda>a b. rankedBefore (toDigest a) (toDigest b)) (js_insert compareFn x ys)"
  using assms
proof (induction ys)
  case Nil
  then show ?case by simp
next
  case (Cons y ys)
  show ?case
  proof (cases "sortCompare compareFn x y \<le> 0")
    case True
    then have xy: "rankedBefore (toDigest x) (toDigest y)"
      using Cons.prems(1) by (simp add: sortCompare_compareFn)
    have "\<forall>z \<in> set ys. rankedBefore (toDigest x) (toDigest z)"
      using xy Cons.prems(2) by (auto intro: rankedBefore_trans)
    with True xy Cons.prems(2) show ?thesis by simp
  next
    case False
    then have "\<not> rankedBefore (toDigest x) (toDigest y)"
      using Cons.prems(1) by (simp add: sortCompare_compareFn)
    then have yx: "rankedBefore (toDigest y) (toDigest x)"
      using rankedBefore_total by blast
    have "sorted_wrt (\<lambda>a b. rankedBefore (toDigest a) (toDigest b)) (js_insert compareFn x ys)"
      using Cons.IH Cons.prems by simp
    with False yx Cons.prems(2) show ?thesis by (auto simp: set_js_insert)
  qed
qed

lemma sorted_js_sort:
  assumes "\<forall>c \<in> set xs. c_level c \<notin> set objectPrototypeNames"
  shows "sorted_wrt (\<lambda>a b. rankedBefore (toDigest a) (toDigest b)) (js_sort compareFn xs)"
  using assms
proof (induction xs)
  case Nil
  show ?case by (simp add: js_sort_def)
next
  case (Cons x xs)
  have step: "js_sort compareFn (x # xs) = js_insert compareFn x (js_sort compareFn xs)"
    by (simp add: js_sort_def)
  show ?case unfolding step
    using Cons by (intro sorted_js_insert) (simp_all add: set_js_sort)
qed

lemma adjacentRanked_if_sorted: "sorted_wrt rankedBefore ds \<Longrightarrow> adjacentRanked ds"
  by (induction ds rule: adjacentRanked.induct) auto

lemma cluster_levels:
  assumes "c \<in> set (map snd (cluster_logs logs))"
  shows "c_level c \<in> level ` set logs"
proof -
  from assms obtain k where "(k, c) \<in> set (cluster_logs logs)" by auto
  from cluster_logs_entry [OF this] obtain r where
    "find (\<lambda>l. key_of l = k) logs = Some r" "c_level c = level r" by blast
  then show ?thesis by (auto simp: find_Some_iff)
qed

text \<open>
  When no level of the input is the name of a property inherited from
  \<open>Object.prototype\<close>, the comparator is the order of the specification and the digest is
  ranked by it.
\<close>

lemma digest_ranked_unless_inherited_level:
  assumes "\<forall>l \<in> set (unifiedLogs logs). level l \<notin> set objectPrototypeNames"
  shows "sorted_wrt rankedBefore (processLogs logs) \<and> adjacentRanked (processLogs logs)"
proof -
  let ?cs = "map snd (cluster_logs (unifiedLogs logs))"
  have "\<forall>c \<in> set ?cs. c_level c \<notin> set objectPrototypeNames"
  proof
    fix c assume "c \<in> set ?cs"
    then have "c_level c \<in> level ` set (unifiedLogs logs)" by (rule cluster_levels)
    then obtain l where "l \<in> set (unifiedLogs logs)" "c_level c = level l" by (auto simp: image_iff)
    with assms show "c_level c \<notin> set objectPrototypeNames" by simp
  qed
  then have "sorted_wrt (\<lambda>a b. rankedBefore (toDigest a) (toDigest b)) (take 100 (js_sort compareFn ?cs))"
    by (intro sorted_wrt_take sorted_js_sort)
  then have "sorted_wrt rankedBefore (processLogs logs)"
    by (simp add: processLogs_def Let_def sorted_wrt_map)
  then show ?thesis by (simp add: adjacentRanked_if_sorted)
qed

text \<open>
  C2. The specification ranks every level other than \<open>Error\<close>, \<open>Warning\<close> and
  \<open>Info\<close> with priority 0. For two records of one component with the levels
  \<open>constructor\<close> and \<open>Error\<close>, each seen once, \<open>levelPriority["constructor"]\<close> is
  the inherited function, the comparator returns \<open>NaN\<close>, the sort leaves the input
  order, and the digest lists the \<open>constructor\<close> entry before the \<open>Error\<close> entry: the
  adjacent pair has equal frequency and priorities 0 and 3, against the claimed order.
\<close>

theorem inherited_level_breaks_ranking:
  "processLogs (Unified
      [\<lparr>timestamp = ''09:00'', component = ''app'', level = ''constructor'', content = ''x'',
        source = None, hostname = None, pid = None\<rparr>,
       \<lparr>timestamp = ''09:01'', component = ''app'', level = ''Error'', content = ''y'',
        source = None, hostname = None, pid = None\<rparr>])
   = [\<lparr>d_component = ''app'', d_level = ''constructor'', frequency = 1, sampleContent = ''x'',
       fingerprint = ''app-constructor''\<rparr>,
      \<lparr>d_component = ''app'', d_level = ''Error'', frequency = 1, sampleContent = ''y'',
       fingerprint = ''app-Error''\<rparr>]
   \<and> \<not> rankedBefore
        \<lparr>d_component = ''app'', d_level = ''constructor'', frequency = 1, sampleContent = ''x'',
         fingerprint = ''app-constructor''\<rparr>
        \<lparr>d_component = ''app'', d_level = ''Error'', frequency = 1, sampleContent = ''y'',
         fingerprint = ''app-Error''\<rparr>
   \<and> \<not> adjacentRanked (processLogs (Unified
      [\<lparr>timestamp = ''09:00'', component = ''app'', level = ''constructor'', content = ''x'',
        source = None, hostname = None, pid = None\<rparr>,
       \<lparr>timestamp = ''09:01'', component = ''app'', level = ''Error'', content = ''y'',
        source = None, hostname = None, pid = None\<rparr>]))"
  by (simp add: processLogs_def cluster_logs_def cluster_step_def key_of_def increment_def
        Let_def js_sort_def sortCompare_def compareFn_def levelPriority_def
        objectPrototypeNames_def toDigest_def rankedBefore_def specPriority_def)

subsection \<open>Clusters and their samples\<close>

lemma map_of_cluster_logs:
  assumes "r \<in> set logs"
  shows "\<exists>c first. map_of (cluster_logs logs) (key_of r) = Some c
           \<and> c_fingerprint c = key_of r
           \<and> count c = length (filter (\<lambda>x. key_of x = key_of r) logs)
           \<and> find (\<lambda>x. key_of x = key_of r) logs = Some first
           \<and> c_component c = component first \<and> c_level c = level first
           \<and> sample c = content first"
proof -
  have "key_of r \<in> fst ` set (cluster_logs logs)"
    using assms keys_cluster_logs [of logs] by auto
  then obtain c where c: "map_of (cluster_logs logs) (key_of r) = Some c"
    using map_of_eq_None_iff [of "cluster_logs logs" "key_of r"] by auto
  then have "(key_of r, c) \<in> set (cluster_logs logs)" by (rule map_of_SomeD)
  from cluster_logs_entry [OF this] c show ?thesis by auto
qed

lemma digest_entry_of_cluster:
  assumes "e \<in> set (processLogs logs)"
  shows "map_of (cluster_logs (unifiedLogs logs)) (fingerprint e) = Some
           \<lparr>c_component = d_component e, c_level = d_level e, count = frequency e,
            sample = sampleContent e, c_fingerprint = fingerprint e\<rparr>"
proof -
  from assms obtain c where c: "c \<in> set (js_sort compareFn (map snd (cluster_logs (unifiedLogs logs))))"
    and e: "e = toDigest c"
    by (auto simp: processLogs_def Let_def dest: in_set_takeD)
  from c obtain k where k: "(k, c) \<in> set (cluster_logs (unifiedLogs logs))"
    by (auto simp: set_js_sort)
  then have "c_fingerprint c = k" by (simp add: cluster_logs_entry)
  moreover have "map_of (cluster_logs (unifiedLogs logs)) k = Some c"
    using k keys_cluster_logs [of "unifiedLogs logs"] by simp
  ultimately show ?thesis using e by (simp add: toDigest_def)
qed

lemma untruncated_digest:
  assumes "card (key_of ` set (unifiedLogs logs)) \<le> 100"
  shows "set (processLogs logs) = toDigest ` snd ` set (cluster_logs (unifiedLogs logs))"
proof -
  have "length (js_sort compareFn (map snd (cluster_logs (unifiedLogs logs)))) \<le> 100"
    using assms by (simp add: length_js_sort length_cluster_logs)
  then show ?thesis
    by (simp add: processLogs_def Let_def set_js_sort)
qed

text \<open>
  C4. Two records of the input with the same component and the same level have the same
  key, and the accumulator holds one cluster under it. Its count is the number of input
  records with that key, so it counts every record with that component and level; its
  sample is the content of the first input record with that key. A digest entry with
  that fingerprint carries this count and this sample, and the digest has the entry
  whenever the input has at most 100 distinct keys.
\<close>

theorem same_component_level_one_cluster:
  assumes "r1 \<in> set (unifiedLogs logs)" and "r2 \<in> set (unifiedLogs logs)"
    and "component r1 = component r2" and "level r1 = level r2"
  shows "\<exists>c first.
           map_of (cluster_logs (unifiedLogs logs)) (key_of r1) = Some c
         \<and> map_of (cluster_logs (unifiedLogs logs)) (key_of r2) = Some c
         \<and> count c = length (filter (\<lambda>x. key_of x = key_of r1) (unifiedLogs logs))
         \<and> length (filter (\<lambda>x. component x = component r1 \<and> level x = level r1)
                     (unifiedLogs logs)) \<le> count c
         \<and> find (\<lambda>x. key_of x = key_of r1) (unifiedLogs logs) = Some first
         \<and> sample c = content first
         \<and> (\<forall>e \<in> set (processLogs logs). fingerprint e = key_of r1 \<longrightarrow>
               frequency e = count c \<and> sampleContent e = content first)
         \<and> (card (key_of ` set (unifiedLogs logs)) \<le> 100 \<longrightarrow>
               toDigest c \<in> set (processLogs logs))"
proof -
  let ?L = "unifiedLogs logs"
  from map_of_cluster_logs [OF assms(1)] obtain c first where
    c: "map_of (cluster_logs ?L) (key_of r1) = Some c"
    and n: "count c = length (filter (\<lambda>x. key_of x = key_of r1) ?L)"
    and f: "find (\<lambda>x. key_of x = key_of r1) ?L = Some first"
    and s: "sample c = content first"
    by blast
  have same: "key_of r2 = key_of r1" using assms(3,4) by (simp add: key_of_def)
  have "length (filter (\<lambda>x. component x = component r1 \<and> level x = level r1) ?L)
          = length (filter (\<lambda>x. component x = component r1 \<and> level x = level r1)
              (filter (\<lambda>x. key_of x = key_of r1) ?L))"
    by (simp add: key_of_def conj_commute cong: conj_cong)
  also have "\<dots> \<le> count c" unfolding n by (rule length_filter_le)
  finally have le: "length (filter (\<lambda>x. component x = component r1 \<and> level x = level r1) ?L)
      \<le> count c" .
  have dig: "\<forall>e \<in> set (processLogs logs). fingerprint e = key_of r1 \<longrightarrow>
               frequency e = count c \<and> sampleContent e = content first"
  proof (intro ballI impI)
    fix e assume "e \<in> set (processLogs logs)" and fp: "fingerprint e = key_of r1"
    from digest_entry_of_cluster [OF this(1)] c fp s
    show "frequency e = count c \<and> sampleContent e = content first" by auto
  qed
  have full: "card (key_of ` set ?L) \<le> 100 \<longrightarrow> toDigest c \<in> set (processLogs logs)"
  proof
    assume "card (key_of ` set ?L) \<le> 100"
    then have "set (processLogs logs) = toDigest ` snd ` set (cluster_logs ?L)"
      by (rule untruncated_digest)
    moreover have "(key_of r1, c) \<in> set (cluster_logs ?L)" using c by (rule map_of_SomeD)
    ultimately show "toDigest c \<in> set (processLogs logs)" by force
  qed
  from c same n le f s dig full show ?thesis by auto
qed

theorem same_component_level_one_cluster_witness:
  "entry ''disk'' ''Error'' ''disk full'' \<in> set (unifiedLogs (Unified exampleLogs))
   \<and> entry ''disk'' ''Error'' ''disk failing'' \<in> set (unifiedLogs (Unified exampleLogs))
   \<and> (\<exists>c. map_of (cluster_logs exampleLogs) ''disk-Error'' = Some c
          \<and> count c = 2 \<and> sample c = ''disk full''
          \<and> toDigest c \<in> set (processLogs (Unified exampleLogs)))"
  using same_component_level_one_cluster
          [of "entry ''disk'' ''Error'' ''disk full''" "Unified exampleLogs"
              "entry ''disk'' ''Error'' ''disk failing''"]
  by (auto simp: exampleLogs_def entry_def key_of_def card_insert_if)

subsection \<open>Statistics\<close>

text \<open>
  C5. \<open>totalLogs\<close> is the number of records; \<open>uniquePatterns\<close> is the number of
  distinct keys, without a cap, so the digest length is the minimum of 100 and
  \<open>uniquePatterns\<close> (equal up to 100 keys, smaller beyond); \<open>errorCount\<close> and
  \<open>warningCount\<close> count the records whose level equals \<open>error\<close> and \<open>warning\<close> up
  to case.
\<close>

theorem stats_counts:
  "totalLogs (calculateStats logs) = length (unifiedLogs logs)
   \<and> uniquePatterns (calculateStats logs) = card (key_of ` set (unifiedLogs logs))
   \<and> length (processLogs logs) = min 100 (uniquePatterns (calculateStats logs))
   \<and> (100 < card (key_of ` set (unifiedLogs logs))
        \<longrightarrow> uniquePatterns (calculateStats logs) \<ge> length (processLogs logs))
   \<and> (card (key_of ` set (unifiedLogs logs)) \<le> 100
        \<longrightarrow> uniquePatterns (calculateStats logs) = length (processLogs logs))
   \<and> errorCount (calculateStats logs)
       = length (filter (\<lambda>log. toLowerCase (level log) = toLowerCase ''error'') (unifiedLogs logs))
   \<and> warningCount (calculateStats logs)
       = length (filter (\<lambda>log. toLowerCase (level log) = toLowerCase ''warning'') (unifiedLogs logs))"
proof -
  have lower: "toLowerCase ''error'' = ''error''" "toLowerCase ''warning'' = ''warning''"
    by (simp_all add: toLowerCase_def toLowerChar_def)
  have u: "uniquePatterns (calculateStats logs) = card (key_of ` set (unifiedLogs logs))"
    by (simp add: calculateStats_def Let_def set_size_def length_remdups_card_conv)
  have l: "length (processLogs logs) = min 100 (card (key_of ` set (unifiedLogs logs)))"
    by (simp add: processLogs_def Let_def length_js_sort length_cluster_logs min.commute)
  show ?thesis unfolding lower u l
    by (simp add: calculateStats_def Let_def)
qed

theorem stats_counts_witness:
  "card (key_of ` set (unifiedLogs (Unified exampleLogs))) \<le> 100
   \<and> totalLogs (calculateStats (Unified exampleLogs)) = 3
   \<and> uniquePatterns (calculateStats (Unified exampleLogs)) = 2
   \<and> length (processLogs (Unified exampleLogs)) = 2
   \<and> errorCount (calculateStats (Unified exampleLogs)) = 2
   \<and> warningCount (calculateStats (Unified exampleLogs)) = 0
   \<and> 100 < card (key_of ` set (unifiedLogs (Unified manyLogs)))
   \<and> totalLogs (calculateStats (Unified manyLogs)) = 101
   \<and> uniquePatterns (calculateStats (Unified manyLogs)) = 101
   \<and> length (processLogs (Unified manyLogs)) = 100"
proof -
  have small: "card (key_of ` set (unifiedLogs (Unified exampleLogs))) \<le> 100
   \<and> totalLogs (calculateStats (Unified exampleLogs)) = 3
   \<and> uniquePatterns (calculateStats (Unified exampleLogs)) = 2
   \<and> length (processLogs (Unified exampleLogs)) = 2
   \<and> errorCount (calculateStats (Unified exampleLogs)) = 2
   \<and> warningCount (calculateStats (Unified exampleLogs)) = 0"
    using stats_counts [of "Unified exampleLogs"]
    by (simp add: exampleLogs_def entry_def key_of_def card_insert_if string_eval)
  have big: "100 < card (key_of ` set (unifiedLogs (Unified manyLogs)))
   \<and> totalLogs (calculateStats (Unified manyLogs)) = 101
   \<and> uniquePatterns (calculateStats (Unified manyLogs)) = 101
   \<and> length (processLogs (Unified manyLogs)) = 100"
    using stats_counts [of "Unified manyLogs"]
    by (simp add: card_keys_manyLogs) (simp add: manyLogs_def)
  from small big show ?thesis by (simp only: simp_thms)
qed

subsection \<open>Colliding keys\<close>

text \<open>
  C10. The key is not injective: the records with component \<open>a-b\<close>, level \<open>c\<close> and
  with component \<open>a\<close>, level \<open>b-c\<close> differ in both fields and share the key
  \<open>a-b-c\<close>. Any two records with one key are merged into a single digest entry with
  the component, level and content of the first and frequency 2, and \<open>calculateStats\<close>
  counts one unique pattern.
\<close>

theorem fingerprint_not_injective:
  "(\<exists>r1 r2. component r1 \<noteq> component r2 \<and> level r1 \<noteq> level r2 \<and> key_of r1 = key_of r2)
   \<and> (\<forall>r1 r2. key_of r1 = key_of r2 \<longrightarrow>
         processLogs (Unified [r1, r2])
           = [\<lparr>d_component = component r1, d_level = level r1, frequency = 2,
               sampleContent = content r1, fingerprint = key_of r1\<rparr>]
         \<and> uniquePatterns (calculateStats (Unified [r1, r2])) = 1)"
proof (intro conjI allI impI)
  show "\<exists>r1 r2. component r1 \<noteq> component r2 \<and> level r1 \<noteq> level r2 \<and> key_of r1 = key_of r2"
    by (rule exI [of _ "entry ''a-b'' ''c'' ''first''"], rule exI [of _ "entry ''a'' ''b-c'' ''second''"])
       (simp add: entry_def key_of_def)
next
  fix r1 r2 :: LogEntry assume "key_of r1 = key_of r2"
  then show "processLogs (Unified [r1, r2])
           = [\<lparr>d_component = component r1, d_level = level r1, frequency = 2,
               sampleContent = content r1, fingerprint = key_of r1\<rparr>]"
    by (simp add: processLogs_def cluster_logs_def cluster_step_def increment_def Let_def
          js_sort_def toDigest_def)
next
  fix r1 r2 :: LogEntry assume "key_of r1 = key_of r2"
  then show "uniquePatterns (calculateStats (Unified [r1, r2])) = 1"
    by (simp add: calculateStats_def Let_def set_size_def)
qed

theorem fingerprint_not_injective_witness:
  "key_of (entry ''a-b'' ''c'' ''first'') = key_of (entry ''a'' ''b-c'' ''second'')
   \<and> processLogs (Unified [entry ''a-b'' ''c'' ''first'', entry ''a'' ''b-c'' ''second''])
       = [\<lparr>d_component = ''a-b'', d_level = ''c'', frequency = 2, sampleContent = ''first'',
           fingerprint = ''a-b-c''\<rparr>]
   \<and> uniquePatterns (calculateStats
        (Unified [entry ''a-b'' ''c'' ''first'', entry ''a'' ''b-c'' ''second''])) = 1"
proof -
  have k: "key_of (entry ''a-b'' ''c'' ''first'') = key_of (entry ''a'' ''b-c'' ''second'')"
    by (simp add: entry_def key_of_def)
  from fingerprint_not_injective k
  have "processLogs (Unified [entry ''a-b'' ''c'' ''first'', entry ''a'' ''b-c'' ''second''])
           = [\<lparr>d_component = component (entry ''a-b'' ''c'' ''first''),
               d_level = level (entry ''a-b'' ''c'' ''first''), frequency = 2,
               sampleContent = content (entry ''a-b'' ''c'' ''first''),
               fingerprint = key_of (entry ''a-b'' ''c'' ''first'')\<rparr>]
         \<and> uniquePatterns (calculateStats
              (Unified [entry ''a-b'' ''c'' ''first'', entry ''a'' ''b-c'' ''second''])) = 1"
    by blast
  then show ?thesis using k by (simp add: entry_def key_of_def)
qed

section \<open>Claims about the level normalizer\<close>

text \<open>
  C3, as stated: a string that matches no pattern group and no numeric code is returned
  unchanged, the empty string included. The empty string matches nothing, and the code
  returns \<open>Info\<close> for it (\<open>level || 'Info'\<close>).
\<close>

theorem normalizeLevel_empty_counterexample:
  "unmatched '''' \<and> normalizeLevel '''' = ''Info'' \<and> normalizeLevel '''' \<noteq> ''''"
  by (simp add: unmatched_def noTextMatch_def numericCodes_def errorGroup_def warningGroup_def
        infoGroup_def debugGroup_def normalizeLevel_def trim_def toLowerCase_def matchAny_def
        orElse_def)

text \<open>
  C3, amended. \<open>normalizeLevel\<close> is a total function of its argument. It case-folds and
  trims the input and answers \<open>Error\<close>, \<open>Warning\<close>, \<open>Info\<close>, \<open>Debug\<close> for the first
  pattern group, in this order, one of whose words occurs in it; failing that, the codes
  0, 1, 2 give \<open>Error\<close>, 3, 4 \<open>Warning\<close>, 5, 6 \<open>Info\<close>, 7 \<open>Debug\<close>; a non-empty string
  that matches nothing is returned unchanged, and the empty string gives \<open>Info\<close>.
\<close>

theorem normalizeLevel_cases:
  "(matchAny (trim (toLowerCase lv)) errorGroup \<longrightarrow> normalizeLevel lv = ''Error'')
   \<and> (\<not> matchAny (trim (toLowerCase lv)) errorGroup
        \<and> matchAny (trim (toLowerCase lv)) warningGroup \<longrightarrow> normalizeLevel lv = ''Warning'')
   \<and> (\<not> matchAny (trim (toLowerCase lv)) errorGroup
        \<and> \<not> matchAny (trim (toLowerCase lv)) warningGroup
        \<and> matchAny (trim (toLowerCase lv)) infoGroup \<longrightarrow> normalizeLevel lv = ''Info'')
   \<and> (\<not> matchAny (trim (toLowerCase lv)) errorGroup
        \<and> \<not> matchAny (trim (toLowerCase lv)) warningGroup
        \<and> \<not> matchAny (trim (toLowerCase lv)) infoGroup
        \<and> matchAny (trim (toLowerCase lv)) debugGroup \<longrightarrow> normalizeLevel lv = ''Debug'')
   \<and> (noTextMatch (trim (toLowerCase lv)) \<and> trim (toLowerCase lv) \<in> {''0'', ''1'', ''2''}
        \<longrightarrow> normalizeLevel lv = ''Error'')
   \<and> (noTextMatch (trim (toLowerCase lv)) \<and> trim (toLowerCase lv) \<in> {''3'', ''4''}
        \<longrightarrow> normalizeLevel lv = ''Warning'')
   \<and> (noTextMatch (trim (toLowerCase lv)) \<and> trim (toLowerCase lv) \<in> {''5'', ''6''}
        \<longrightarrow> normalizeLevel lv = ''Info'')
   \<and> (noTextMatch (trim (toLowerCase lv)) \<and> trim (toLowerCase lv) = ''7''
        \<longrightarrow> normalizeLevel lv = ''Debug'')
   \<and> (unmatched lv \<and> lv \<noteq> [] \<longrightarrow> normalizeLevel lv = lv)
   \<and> (lv = [] \<longrightarrow> normalizeLevel lv = ''Info'')
   \<and> normalizeLevel ''3'' = ''Warning'' \<and> normalizeLevel ''0'' = ''Error''"
proof -
  have groups: "normalizeLevel lv =
     (let l = trim (toLowerCase lv)
      in if matchAny l errorGroup then ''Error''
         else if matchAny l warningGroup then ''Warning''
         else if matchAny l infoGroup then ''Info''
         else if matchAny l debugGroup then ''Debug''
         else if l = ''0'' \<or> l = ''1'' \<or> l = ''2'' then ''Error''
         else if l = ''3'' \<or> l = ''4'' then ''Warning''
         else if l = ''5'' \<or> l = ''6'' then ''Info''
         else if l = ''7'' then ''Debug''
         else orElse lv ''Info'')"
    by (simp only: normalizeLevel_def errorGroup_def warningGroup_def infoGroup_def debugGroup_def)
  have empty: "lv = [] \<longrightarrow> normalizeLevel lv = ''Info''"
    by (simp add: normalizeLevel_def trim_def toLowerCase_def matchAny_def orElse_def)
  have three: "normalizeLevel ''3'' = ''Warning''" and zero: "normalizeLevel ''0'' = ''Error''"
    by (simp_all add: normalizeLevel_def string_eval)
  have rest: "unmatched lv \<and> lv \<noteq> [] \<longrightarrow> normalizeLevel lv = lv"
    unfolding groups
    by (simp add: unmatched_def noTextMatch_def numericCodes_def Let_def orElse_def)
  have words: "(matchAny (trim (toLowerCase lv)) errorGroup \<longrightarrow> normalizeLevel lv = ''Error'')
   \<and> (\<not> matchAny (trim (toLowerCase lv)) errorGroup
        \<and> matchAny (trim (toLowerCase lv)) warningGroup \<longrightarrow> normalizeLevel lv = ''Warning'')
   \<and> (\<not> matchAny (trim (toLowerCase lv)) errorGroup
        \<and> \<not> matchAny (trim (toLowerCase lv)) warningGroup
        \<and> matchAny (trim (toLowerCase lv)) infoGroup \<longrightarrow> normalizeLevel lv = ''Info'')
   \<and> (\<not> matchAny (trim (toLowerCase lv)) errorGroup
        \<and> \<not> matchAny (trim (toLowerCase lv)) warningGroup
        \<and> \<not> matchAny (trim (toLowerCase lv)) infoGroup
        \<and> matchAny (trim (toLowerCase lv)) debugGroup \<longrightarrow> normalizeLevel lv = ''Debug'')"
    unfolding groups by (simp add: Let_def)
  have codes: "(noTextMatch (trim (toLowerCase lv)) \<and> trim (toLowerCase lv) \<in> {''0'', ''1'', ''2''}
        \<longrightarrow> normalizeLevel lv = ''Error'')
   \<and> (noTextMatch (trim (toLowerCase lv)) \<and> trim (toLowerCase lv) \<in> {''3'', ''4''}
        \<longrightarrow> normalizeLevel lv = ''Warning'')
   \<and> (noTextMatch (trim (toLowerCase lv)) \<and> trim (toLowerCase lv) \<in> {''5'', ''6''}
        \<longrightarrow> normalizeLevel lv = ''Info'')
   \<and> (noTextMatch (trim (toLowerCase lv)) \<and> trim (toLowerCase lv) = ''7''
        \<longrightarrow> normalizeLevel lv = ''Debug'')"
    unfolding groups by (auto simp: Let_def noTextMatch_def)
  show ?thesis
    using words codes rest empty three zero
    by - ((erule conjE)+, intro conjI, assumption+)
qed

lemmas group_defs = unmatched_def noTextMatch_def numericCodes_def errorGroup_def warningGroup_def
        infoGroup_def debugGroup_def

theorem normalizeLevel_cases_witness:
  "normalizeLevel ''ERR'' = ''Error'' \<and> normalizeLevel '' Warn'' = ''Warning''
   \<and> normalizeLevel ''Notice'' = ''Info'' \<and> normalizeLevel ''TRACE'' = ''Debug''
   \<and> normalizeLevel ''2'' = ''Error'' \<and> normalizeLevel ''4 '' = ''Warning''
   \<and> normalizeLevel ''5'' = ''Info'' \<and> normalizeLevel ''7'' = ''Debug''
   \<and> unmatched ''Custom'' \<and> normalizeLevel ''Custom'' = ''Custom''
   \<and> normalizeLevel [] = ''Info''"
proof -
  have 1: "matchAny (trim (toLowerCase ''ERR'')) errorGroup" by (simp add: group_defs string_eval)
  have 2: "\<not> matchAny (trim (toLowerCase '' Warn'')) errorGroup
        \<and> matchAny (trim (toLowerCase '' Warn'')) warningGroup"
    by (simp add: group_defs string_eval)
  have 3: "\<not> matchAny (trim (toLowerCase ''Notice'')) errorGroup
        \<and> \<not> matchAny (trim (toLowerCase ''Notice'')) warningGroup
        \<and> matchAny (trim (toLowerCase ''Notice'')) infoGroup"
    by (simp add: group_defs string_eval)
  have 4: "\<not> matchAny (trim (toLowerCase ''TRACE'')) errorGroup
        \<and> \<not> matchAny (trim (toLowerCase ''TRACE'')) warningGroup
        \<and> \<not> matchAny (trim (toLowerCase ''TRACE'')) infoGroup
        \<and> matchAny (trim (toLowerCase ''TRACE'')) debugGroup"
    by (simp add: group_defs string_eval)
  have 5: "noTextMatch (trim (toLowerCase ''2'')) \<and> trim (toLowerCase ''2'') \<in> {''0'', ''1'', ''2''}"
    by (simp add: group_defs string_eval)
  have 6: "noTextMatch (trim (toLowerCase ''4 '')) \<and> trim (toLowerCase ''4 '') \<in> {''3'', ''4''}"
    by (simp add: group_defs string_eval)
  have 7: "noTextMatch (trim (toLowerCase ''5'')) \<and> trim (toLowerCase ''5'') \<in> {''5'', ''6''}"
    by (simp add: group_defs string_eval)
  have 8: "noTextMatch (trim (toLowerCase ''7'')) \<and> trim (toLowerCase ''7'') = ''7''"
    by (simp add: group_defs string_eval)
  have 9: "unmatched ''Custom'' \<and> ''Custom'' \<noteq> []"
    by (simp add: group_defs string_eval)
  note c = normalizeLevel_cases
  have "normalizeLevel ''ERR'' = ''Error''"
    by (rule c [of "''ERR''", THEN conjunct1, THEN mp, OF 1])
  moreover have "normalizeLevel '' Warn'' = ''Warning''"
    by (rule c [of "'' Warn''", THEN conjunct2, THEN conjunct1, THEN mp, OF 2])
  moreover have "normalizeLevel ''Notice'' = ''Info''"
    by (rule c [of "''Notice''", THEN conjunct2, THEN conjunct2, THEN conjunct1, THEN mp, OF 3])
  moreover have "normalizeLevel ''TRACE'' = ''Debug''"
    by (rule c [of "''TRACE''", THEN conjunct2, THEN conjunct2, THEN conjunct2, THEN conjunct1,
                THEN mp, OF 4])
  moreover have "normalizeLevel ''2'' = ''Error''"
    by (rule c [of "''2''", THEN conjunct2, THEN conjunct2, THEN conjunct2, THEN conjunct2,
                THEN conjunct1, THEN mp, OF 5])
  moreover have "normalizeLevel ''4 '' = ''Warning''"
    by (rule c [of "''4 ''", THEN conjunct2, THEN conjunct2, THEN conjunct2, THEN conjunct2,
                THEN conjunct2, THEN conjunct1, THEN mp, OF 6])
  moreover have "normalizeLevel ''5'' = ''Info''"
    by (rule c [of "''5''", THEN conjunct2, THEN conjunct2, THEN conjunct2, THEN conjunct2,
                THEN conjunct2, THEN conjunct2, THEN conjunct1, THEN mp, OF 7])
  moreover have "normalizeLevel ''7'' = ''Debug''"
    by (rule c [of "''7''", THEN conjunct2, THEN conjunct2, THEN conjunct2, THEN conjunct2,
                THEN conjunct2, THEN conjunct2, THEN conjunct2, THEN conjunct1, THEN mp, OF 8])
  moreover have "normalizeLevel ''Custom'' = ''Custom''"
    by (rule c [of "''Custom''", THEN conjunct2, THEN conjunct2, THEN conjunct2, THEN conjunct2,
                THEN conjunct2, THEN conjunct2, THEN conjunct2, THEN conjunct2, THEN conjunct1,
                THEN mp, OF 9])
  moreover have "normalizeLevel [] = ''Info''"
    by (rule c [of "[]", THEN conjunct2, THEN conjunct2, THEN conjunct2, THEN conjunct2,
                THEN conjunct2, THEN conjunct2, THEN conjunct2, THEN conjunct2, THEN conjunct2,
                THEN conjunct1, THEN mp, OF refl])
  ultimately show ?thesis using 9 by (simp only: simp_thms)
qed

section \<open>Claims about CSV ingestion: the empty file\<close>

text \<open>
  C8. With a header row and no data row, \<open>results.data\<close> is empty (or absent) and the
  promise is rejected with the error \<open>CSV file is empty or has no valid data\<close>,
  whatever the headers and the requested format: no list of records is returned.
\<close>

theorem empty_csv_rejected:
  "parseCSV clock stringify (Complete (Some []) metaFields) format
     = Inl (Error ''CSV file is empty or has no valid data'')
   \<and> parseCSV clock stringify (Complete None metaFields) format
     = Inl (Error ''CSV file is empty or has no valid data'')"
  by (simp add: parseCSV_def)

theorem empty_csv_rejected_witness:
  "parseCSV (\<lambda>i. ''2026-01-01T00:00:00.000Z'') (\<lambda>r. ''null'')
      (Complete (Some []) (Some [''LineId'', ''Time'', ''Component'', ''Level'', ''Content'']))
      Auto
     = Inl (Error ''CSV file is empty or has no valid data'')"
  using empty_csv_rejected
          [of "\<lambda>i. ''2026-01-01T00:00:00.000Z''" "\<lambda>r. ''null''"
              "Some [''LineId'', ''Time'', ''Component'', ''Level'', ''Content'']" Auto]
  by (rule conjunct1)

section \<open>Claims about the format detector\<close>

lemma firstMatch_cases:
  "firstMatch H =
     (if ''lineid'' \<in> H \<and> ''component'' \<in> H \<and> ''level'' \<in> H then Some Windows
      else if ''timestamp'' \<in> H \<and> (''hostname'' \<in> H \<or> ''host'' \<in> H) then Some LinuxSyslog
      else if ''remotehost'' \<in> H \<or> ''request'' \<in> H \<or> ''status'' \<in> H then Some Apache
      else if ''logtime'' \<in> H \<and> (''level'' \<in> H \<or> ''priority'' \<in> H) then Some Hadoop
      else if ''timestamp'' \<in> H \<and> ''logger'' \<in> H then Some Spark
      else None)"
proof -
  have 1: "({''lineid'', ''component'', ''level''} \<subseteq> H)
             = (''lineid'' \<in> H \<and> ''component'' \<in> H \<and> ''level'' \<in> H)"
    and 2: "(H \<inter> {''hostname'', ''host''} \<noteq> {}) = (''hostname'' \<in> H \<or> ''host'' \<in> H)"
    and 3: "(H \<inter> {''remotehost'', ''request'', ''status''} \<noteq> {})
             = (''remotehost'' \<in> H \<or> ''request'' \<in> H \<or> ''status'' \<in> H)"
    and 4: "(H \<inter> {''level'', ''priority''} \<noteq> {}) = (''level'' \<in> H \<or> ''priority'' \<in> H)"
    and 5: "({''timestamp'', ''logger''} \<subseteq> H) = (''timestamp'' \<in> H \<and> ''logger'' \<in> H)"
    by blast+
  show ?thesis
    unfolding firstMatch_def headerRules_def find.simps fst_conv 1 2 3 4 5
    by (simp only: if_distrib [of "map_option snd"] option.map snd_conv)
qed

text \<open>
  C9. The detector computes the first rule that holds in the table of the specification
  (Windows, Linux syslog, Apache, Hadoop, Spark), on the headers case-folded once, then
  the OpenSSH content check, then \<open>auto\<close>. Headers that contain \<open>lineid\<close>,
  \<open>component\<close> and \<open>level\<close> up to case give Windows, whatever else they contain.
\<close>

theorem detect_first_rule_wins:
  "detectLogFormat headers sampleRows = detectBySpec headers sampleRows
   \<and> ({''lineid'', ''component'', ''level''} \<subseteq> set (map toLowerCase headers)
        \<longrightarrow> detectLogFormat headers sampleRows = Inr Windows)"
proof -
  have "detectLogFormat headers sampleRows = detectBySpec headers sampleRows"
    unfolding detectLogFormat_def detectBySpec_def firstMatch_cases Let_def
    by (cases "sshContent headers sampleRows") (auto simp: map_sum_def)
  moreover have "{''lineid'', ''component'', ''level''} \<subseteq> set (map toLowerCase headers)
        \<longrightarrow> detectLogFormat headers sampleRows = Inr Windows"
    by (simp add: detectLogFormat_def Let_def)
  ultimately show ?thesis by (rule conjI)
qed

theorem detect_first_rule_wins_witness:
  "{''lineid'', ''component'', ''level''}
     \<subseteq> set (map toLowerCase [''LineId'', ''Timestamp'', ''Component'', ''Level'', ''Status'', ''Logger''])
   \<and> firstMatch (toLowerCase ` set [''Timestamp'', ''Status'', ''Logger'']) = Some Apache
   \<and> firstMatch (toLowerCase ` set [''Timestamp'', ''Logger'']) = Some Spark
   \<and> detectLogFormat [''LineId'', ''Timestamp'', ''Component'', ''Level'', ''Status'', ''Logger''] []
       = Inr Windows"
proof -
  have h: "{''lineid'', ''component'', ''level''}
     \<subseteq> set (map toLowerCase [''LineId'', ''Timestamp'', ''Component'', ''Level'', ''Status'', ''Logger''])"
    by (simp add: string_eval)
  have a: "firstMatch (toLowerCase ` set [''Timestamp'', ''Status'', ''Logger'']) = Some Apache"
    by (simp add: firstMatch_cases string_eval)
  have s: "firstMatch (toLowerCase ` set [''Timestamp'', ''Logger'']) = Some Spark"
    by (simp add: firstMatch_cases string_eval)
  from h a s detect_first_rule_wins
      [of "[''LineId'', ''Timestamp'', ''Component'', ''Level'', ''Status'', ''Logger'']" "[]",
       THEN conjunct2, THEN mp, OF h]
  show ?thesis by (simp only: simp_thms)
qed

section \<open>Claims about the row parsers\<close>

lemma normalizeLevel_nonempty: "normalizeLevel lv \<noteq> []"
  by (simp add: normalizeLevel_def Let_def orElse_def)

lemma normalizeLevel_of_empty: "normalizeLevel [] = ''Info''"
  by (simp add: normalizeLevel_def trim_def toLowerCase_def matchAny_def orElse_def)

lemma orElse_nonempty: "b \<noteq> [] \<Longrightarrow> orElse a b \<noteq> []"
  by (simp add: orElse_def)

text \<open>
  C6, as stated: every row parser yields a non-empty component and level, with the
  fallbacks \<open>unknown\<close> and \<open>Info\<close>. The Windows parser copies the columns: a row with
  empty \<open>Component\<close> and \<open>Level\<close> values gives a record with both fields empty. The
  Hadoop parser's fallback component is \<open>hadoop\<close>, not \<open>unknown\<close>.
\<close>

theorem windows_parser_keeps_empty_fields_counterexample:
  "parseLogRow
      (Fields [''LineId'' \<mapsto> ''1'', ''Time'' \<mapsto> ''04:30:30'', ''Component'' \<mapsto> '''',
               ''Level'' \<mapsto> '''', ''Content'' \<mapsto> ''boot''])
      [''LineId'', ''Time'', ''Component'', ''Level'', ''Content''] Windows
    = Inr \<lparr>timestamp = ''04:30:30'', component = '''', level = '''', content = ''boot'',
           source = Some ''Windows'', hostname = None, pid = None\<rparr>
   \<and> parseLogRow (Fields [''logtime'' \<mapsto> ''04:30:30'', ''message'' \<mapsto> ''started''])
      [''logtime'', ''message''] Hadoop
    = Inr \<lparr>timestamp = ''04:30:30'', component = ''hadoop'', level = ''Info'',
           content = ''started'', source = Some ''Hadoop'', hostname = None, pid = None\<rparr>"
  by (simp add: parseWindowsLog_def parseHadoopLog_def getValue_def getValueAlt_def field_def
        headerOr_def normalizeLevel_of_empty string_eval)

text \<open>
  C6, amended. For a row that is an object, the Linux syslog, Apache, Hadoop, Spark and
  OpenSSH parsers return a record whose component and level are non-empty. Linux syslog
  supplies \<open>unknown\<close> and \<open>Info\<close> when it finds no value, Hadoop and Spark supply
  \<open>hadoop\<close> and \<open>spark\<close> for the component and \<open>Info\<close> for the level, Apache and
  OpenSSH set the components \<open>apache\<close> and \<open>sshd\<close> and derive the level. The Windows
  parser returns the \<open>Component\<close> and \<open>Level\<close> values as they are, empty when the row
  has none.
\<close>

theorem parsers_fill_component_and_level:
  "(format \<in> {LinuxSyslog, Apache, Hadoop, Spark, OpenSSH} \<longrightarrow>
      (\<exists>e. parseLogRow (Fields f) headers format = Inr e
          \<and> component e \<noteq> [] \<and> level e \<noteq> []
          \<and> (format = LinuxSyslog \<and> getValueAlt f headers ''program'' ''service'' = []
               \<and> getValueAlt f headers ''component'' ''daemon'' = []
               \<and> getValueAlt f headers ''logger'' [] = [] \<longrightarrow> component e = ''unknown'')
          \<and> (format = LinuxSyslog \<and> getValueAlt f headers ''level'' ''priority'' = []
               \<and> getValueAlt f headers ''severity'' [] = [] \<longrightarrow> level e = ''Info'')
          \<and> (format = Hadoop \<and> getValueAlt f headers ''logger'' ''component'' = []
               \<longrightarrow> component e = ''hadoop'')
          \<and> (format = Spark \<and> getValueAlt f headers ''logger'' ''component'' = []
               \<longrightarrow> component e = ''spark'')
          \<and> ((format = Hadoop \<or> format = Spark)
               \<and> getValueAlt f headers ''level'' ''priority'' = [] \<longrightarrow> level e = ''Info'')
          \<and> (format = Apache \<longrightarrow> component e = ''apache''
               \<and> level e \<in> {''Error'', ''Warning'', ''Info''})
          \<and> (format = OpenSSH \<longrightarrow> component e = ''sshd''
               \<and> level e \<in> {''Error'', ''Warning'', ''Info''})))
   \<and> (\<exists>e. parseLogRow (Fields f) headers Windows = Inr e
          \<and> component e = getValue f headers ''Component''
          \<and> level e = getValue f headers ''Level'')"
proof (intro conjI impI)
  assume "format \<in> {LinuxSyslog, Apache, Hadoop, Spark, OpenSSH}"
  then consider "format = LinuxSyslog" | "format = Apache" | "format = Hadoop"
    | "format = Spark" | "format = OpenSSH" by auto
  then show "\<exists>e. parseLogRow (Fields f) headers format = Inr e
          \<and> component e \<noteq> [] \<and> level e \<noteq> []
          \<and> (format = LinuxSyslog \<and> getValueAlt f headers ''program'' ''service'' = []
               \<and> getValueAlt f headers ''component'' ''daemon'' = []
               \<and> getValueAlt f headers ''logger'' [] = [] \<longrightarrow> component e = ''unknown'')
          \<and> (format = LinuxSyslog \<and> getValueAlt f headers ''level'' ''priority'' = []
               \<and> getValueAlt f headers ''severity'' [] = [] \<longrightarrow> level e = ''Info'')
          \<and> (format = Hadoop \<and> getValueAlt f headers ''logger'' ''component'' = []
               \<longrightarrow> component e = ''hadoop'')
          \<and> (format = Spark \<and> getValueAlt f headers ''logger'' ''component'' = []
               \<longrightarrow> component e = ''spark'')
          \<and> ((format = Hadoop \<or> format = Spark)
               \<and> getValueAlt f headers ''level'' ''priority'' = [] \<longrightarrow> level e = ''Info'')
          \<and> (format = Apache \<longrightarrow> component e = ''apache''
               \<and> level e \<in> {''Error'', ''Warning'', ''Info''})
          \<and> (format = OpenSSH \<longrightarrow> component e = ''sshd''
               \<and> level e \<in> {''Error'', ''Warning'', ''Info''})"
  proof cases
    case 1
    then show ?thesis
      by (simp add: parseLinuxSyslog_def Let_def normalizeLevel_nonempty orElse_nonempty)
         (simp add: orElse_def normalizeLevel_def trim_def toLowerCase_def toLowerChar_def
            isWhiteSpace_def matchAny_def char_of_eq_iff char_eq_char_of)
  next
    case 2
    then show ?thesis by (simp add: parseApacheLog_def Let_def)
  next
    case 3
    then show ?thesis
      by (simp add: parseHadoopLog_def normalizeLevel_nonempty orElse_nonempty
            normalizeLevel_of_empty)
         (simp add: orElse_def)
  next
    case 4
    then show ?thesis
      by (simp add: parseSparkLog_def normalizeLevel_nonempty orElse_nonempty
            normalizeLevel_of_empty)
         (simp add: orElse_def)
  next
    case 5
    then show ?thesis by (simp add: parseOpenSSHLog_def Let_def)
  qed
next
  show "\<exists>e. parseLogRow (Fields f) headers Windows = Inr e
          \<and> component e = getValue f headers ''Component''
          \<and> level e = getValue f headers ''Level''"
    by (simp add: parseWindowsLog_def)
qed

theorem parsers_fill_component_and_level_witness:
  "LinuxSyslog \<in> {LinuxSyslog, Apache, Hadoop, Spark, OpenSSH}
   \<and> getValueAlt [''foo'' \<mapsto> ''hello''] [''foo''] ''program'' ''service'' = []
   \<and> getValueAlt [''foo'' \<mapsto> ''hello''] [''foo''] ''component'' ''daemon'' = []
   \<and> getValueAlt [''foo'' \<mapsto> ''hello''] [''foo''] ''logger'' [] = []
   \<and> getValueAlt [''foo'' \<mapsto> ''hello''] [''foo''] ''level'' ''priority'' = []
   \<and> getValueAlt [''foo'' \<mapsto> ''hello''] [''foo''] ''severity'' [] = []
   \<and> (\<exists>e. parseLogRow (Fields [''foo'' \<mapsto> ''hello'']) [''foo''] LinuxSyslog = Inr e
          \<and> component e = ''unknown'' \<and> level e = ''Info'')
   \<and> getValueAlt [''LogTime'' \<mapsto> ''04:30'', ''Message'' \<mapsto> ''started'']
         [''LogTime'', ''Message''] ''logger'' ''component'' = []
   \<and> getValueAlt [''LogTime'' \<mapsto> ''04:30'', ''Message'' \<mapsto> ''started'']
         [''LogTime'', ''Message''] ''level'' ''priority'' = []
   \<and> (\<exists>e. parseLogRow (Fields [''LogTime'' \<mapsto> ''04:30'', ''Message'' \<mapsto> ''started''])
              [''LogTime'', ''Message''] Hadoop = Inr e
          \<and> component e = ''hadoop'' \<and> level e = ''Info'')
   \<and> (\<exists>e. parseLogRow (Fields [''LogTime'' \<mapsto> ''04:30'', ''Message'' \<mapsto> ''started''])
              [''LogTime'', ''Message''] Spark = Inr e
          \<and> component e = ''spark'' \<and> level e = ''Info'')
   \<and> (\<exists>e. parseLogRow (Fields [''Status'' \<mapsto> ''503'', ''Request'' \<mapsto> ''/index''])
              [''Status'', ''Request''] Apache = Inr e
          \<and> component e = ''apache'' \<and> level e = ''Error'')
   \<and> (\<exists>e. parseLogRow (Fields [''Message'' \<mapsto> ''Failed password for root''])
              [''Message''] OpenSSH = Inr e
          \<and> component e = ''sshd'' \<and> level e = ''Error'')"
proof -
  have linux: "LinuxSyslog \<in> {LinuxSyslog, Apache, Hadoop, Spark, OpenSSH}
   \<and> getValueAlt [''foo'' \<mapsto> ''hello''] [''foo''] ''program'' ''service'' = []
   \<and> getValueAlt [''foo'' \<mapsto> ''hello''] [''foo''] ''component'' ''daemon'' = []
   \<and> getValueAlt [''foo'' \<mapsto> ''hello''] [''foo''] ''logger'' [] = []
   \<and> getValueAlt [''foo'' \<mapsto> ''hello''] [''foo''] ''level'' ''priority'' = []
   \<and> getValueAlt [''foo'' \<mapsto> ''hello''] [''foo''] ''severity'' [] = []
   \<and> (\<exists>e. parseLogRow (Fields [''foo'' \<mapsto> ''hello'']) [''foo''] LinuxSyslog = Inr e
          \<and> component e = ''unknown'' \<and> level e = ''Info'')"
    using parsers_fill_component_and_level
         [of LinuxSyslog "[''foo'' \<mapsto> ''hello'']" "[''foo'']"]
    by (simp add: parseLinuxSyslog_def getValueAlt_def field_def headerOr_def normalizeLevel_def
          Let_def string_eval)
  have hadoop: "getValueAlt [''LogTime'' \<mapsto> ''04:30'', ''Message'' \<mapsto> ''started'']
         [''LogTime'', ''Message''] ''logger'' ''component'' = []
   \<and> getValueAlt [''LogTime'' \<mapsto> ''04:30'', ''Message'' \<mapsto> ''started'']
         [''LogTime'', ''Message''] ''level'' ''priority'' = []
   \<and> (\<exists>e. parseLogRow (Fields [''LogTime'' \<mapsto> ''04:30'', ''Message'' \<mapsto> ''started''])
              [''LogTime'', ''Message''] Hadoop = Inr e
          \<and> component e = ''hadoop'' \<and> level e = ''Info'')"
    using parsers_fill_component_and_level
         [of Hadoop "[''LogTime'' \<mapsto> ''04:30'', ''Message'' \<mapsto> ''started'']"
             "[''LogTime'', ''Message'']"]
    by (simp add: parseHadoopLog_def getValueAlt_def field_def headerOr_def normalizeLevel_def
          Let_def string_eval)
  have spark: "\<exists>e. parseLogRow (Fields [''LogTime'' \<mapsto> ''04:30'', ''Message'' \<mapsto> ''started''])
              [''LogTime'', ''Message''] Spark = Inr e
          \<and> component e = ''spark'' \<and> level e = ''Info''"
    using parsers_fill_component_and_level
         [of Spark "[''LogTime'' \<mapsto> ''04:30'', ''Message'' \<mapsto> ''started'']"
             "[''LogTime'', ''Message'']"]
    by (simp add: parseSparkLog_def getValueAlt_def field_def headerOr_def normalizeLevel_def
          Let_def string_eval)
  have apache: "\<exists>e. parseLogRow (Fields [''Status'' \<mapsto> ''503'', ''Request'' \<mapsto> ''/index''])
              [''Status'', ''Request''] Apache = Inr e
          \<and> component e = ''apache'' \<and> level e = ''Error''"
    using parsers_fill_component_and_level
         [of Apache "[''Status'' \<mapsto> ''503'', ''Request'' \<mapsto> ''/index'']"
             "[''Status'', ''Request'']"]
    by (simp add: parseApacheLog_def getValueAlt_def field_def headerOr_def parseInt_def
          isDigit_def digitValue_def atLeastNum_def Let_def string_eval)
  have openssh: "\<exists>e. parseLogRow (Fields [''Message'' \<mapsto> ''Failed password for root''])
              [''Message''] OpenSSH = Inr e
          \<and> component e = ''sshd'' \<and> level e = ''Error''"
    using parsers_fill_component_and_level
         [of OpenSSH "[''Message'' \<mapsto> ''Failed password for root'']" "[''Message'']"]
    by (simp add: parseOpenSSHLog_def getValueAlt_def field_def headerOr_def
          Let_def string_eval)
  from linux hadoop spark apache openssh show ?thesis by (simp only: simp_thms)
qed

section \<open>Claims about CSV ingestion: unknown headers\<close>

lemma foo_bar_absent:
  assumes "dom f \<subseteq> {''foo'', ''bar''}"
    and "toLowerCase key \<noteq> ''foo''" "toLowerCase key \<noteq> ''bar''"
    and "toLowerCase (orElse alt []) \<noteq> ''foo''" "toLowerCase (orElse alt []) \<noteq> ''bar''"
    and "key \<noteq> ''foo''" "key \<noteq> ''bar''"
  shows "getValueAlt f [''foo'', ''bar''] key alt = []"
proof -
  have low: "toLowerCase ''foo'' = ''foo''" "toLowerCase ''bar'' = ''bar''"
    by (simp_all add: toLowerCase_def toLowerChar_def)
  have "key \<notin> dom f" using assms(1,6,7) by auto
  then have "f key = None" by auto
  then show ?thesis using assms(2-5)
    by (simp add: getValueAlt_def field_def headerOr_def low)
qed

lemma foo_bar_lookups:
  assumes "dom f \<subseteq> {''foo'', ''bar''}"
  shows "getValueAlt f [''foo'', ''bar''] ''message'' ''msg'' = []"
    and "getValueAlt f [''foo'', ''bar''] ''content'' [] = []"
    and "getValueAlt f [''foo'', ''bar''] ''program'' ''service'' = []"
    and "getValueAlt f [''foo'', ''bar''] ''component'' ''daemon'' = []"
    and "getValueAlt f [''foo'', ''bar''] ''logger'' [] = []"
  by (rule foo_bar_absent [OF assms]; simp add: string_eval)+

lemma foo_bar_linux:
  assumes "dom f \<subseteq> {''foo'', ''bar''}"
  shows "\<exists>e. parseLinuxSyslog (Fields f) [''foo'', ''bar''] = Inr e \<and> content e = []
            \<and> component e = ''unknown''"
  by (simp add: parseLinuxSyslog_def Let_def foo_bar_lookups [OF assms] orElse_def)

lemma foo_bar_openssh:
  assumes "dom f \<subseteq> {''foo'', ''bar''}"
  shows "\<exists>e. parseOpenSSHLog (Fields f) [''foo'', ''bar''] = Inr e \<and> content e = []
            \<and> component e = ''sshd''"
  by (simp add: parseOpenSSHLog_def Let_def foo_bar_lookups [OF assms] orElse_def)

lemma sshContent_readable:
  assumes "\<forall>row \<in> set rows. readableWithin headers row"
  shows "\<not> isl (sshContent headers rows)"
  using assms
proof (induction rows)
  case Nil
  show ?case by simp
next
  case (Cons row rows)
  then obtain f where "row = Fields f"
    by (cases row) (simp_all add: readableWithin_def)
  with Cons show ?case by (simp add: Let_def)
qed

lemma foo_bar_detect:
  assumes "\<forall>row \<in> set rows. readableWithin [''foo'', ''bar''] row"
  shows "detectLogFormat [''foo'', ''bar''] rows = Inr OpenSSH
         \<or> detectLogFormat [''foo'', ''bar''] rows = Inr Auto"
proof -
  have low: "map toLowerCase [''foo'', ''bar''] = [''foo'', ''bar'']"
    by (simp add: toLowerCase_def toLowerChar_def)
  from sshContent_readable [OF assms] obtain b where "sshContent [''foo'', ''bar''] rows = Inr b"
    by (cases "sshContent [''foo'', ''bar''] rows") simp_all
  then show ?thesis
    unfolding detectLogFormat_def Let_def low by (cases b) simp_all
qed

lemma foo_bar_row:
  assumes "readableWithin [''foo'', ''bar''] row" and "format = Auto \<or> format = OpenSSH"
  shows "\<exists>e. parseLogRow row [''foo'', ''bar''] format = Inr e \<and> content e = []
            \<and> (component e = ''unknown'' \<or> component e = ''sshd'')"
proof -
  from assms(1) obtain f where row: "row = Fields f" and dom: "dom f \<subseteq> {''foo'', ''bar''}"
    by (cases row) (auto simp: readableWithin_def)
  have one: "\<forall>r \<in> set [row]. readableWithin [''foo'', ''bar''] r" using assms(1) by simp
  from assms(2) show ?thesis
  proof
    assume "format = OpenSSH"
    then show ?thesis using foo_bar_openssh [OF dom] row by auto
  next
    assume auto: "format = Auto"
    from foo_bar_detect [OF one] show ?thesis
    proof
      assume "detectLogFormat [''foo'', ''bar''] [row] = Inr OpenSSH"
      then show ?thesis using auto foo_bar_openssh [OF dom] row by auto
    next
      assume "detectLogFormat [''foo'', ''bar''] [row] = Inr Auto"
      then show ?thesis using auto foo_bar_linux [OF dom] row by auto
    qed
  qed
qed

text \<open>
  C7, amended. For the headers \<open>foo, bar\<close>, at least one row, every row an object with
  properties among the headers, and the format \<open>auto\<close>: \<open>parseCSV\<close> does not fail; each
  row is parsed by the Linux syslog parser (or the OpenSSH parser when the first column
  mentions sshd, connection or authentication) into a record with component \<open>unknown\<close>
  (or \<open>sshd\<close>) and empty content; the content filter removes every such record and the
  promise resolves with the empty list.
\<close>

theorem unknown_headers_rows_are_dropped:
  assumes "rows \<noteq> []" and "\<forall>row \<in> set rows. readableWithin [''foo'', ''bar''] row"
  shows "parseCSV clock stringify (Complete (Some rows) (Some [''foo'', ''bar''])) Auto = Inr []
         \<and> (\<forall>row \<in> set rows. \<exists>e. parseLogRow row [''foo'', ''bar''] Auto = Inr e
               \<and> content e = [] \<and> (component e = ''unknown'' \<or> component e = ''sshd''))"
proof -
  have rows5: "\<forall>row \<in> set (take 5 rows). readableWithin [''foo'', ''bar''] row"
    using assms(2) by (auto dest: in_set_takeD)
  from foo_bar_detect [OF rows5] obtain detected
    where d: "detectLogFormat [''foo'', ''bar''] (take 5 rows) = Inr detected"
      and dd: "detected = Auto \<or> detected = OpenSSH" by auto
  have "\<not> hasContent (parseRowOrFallback clock stringify [''foo'', ''bar''] detected ir)"
    if "ir \<in> set (enumerate 0 rows)" for ir
  proof -
    from that have "snd ir \<in> snd ` set (enumerate 0 rows)" by (rule imageI)
    then have "snd ir \<in> set (map snd (enumerate 0 rows))" by (simp only: set_map)
    then have "snd ir \<in> set rows" by (simp only: map_snd_enumerate)
    with assms(2) have "readableWithin [''foo'', ''bar''] (snd ir)" by simp
    from foo_bar_row [OF this dd] show ?thesis
      by (auto simp: parseRowOrFallback_def hasContent_def)
  qed
  then have "filter hasContent
               (map (parseRowOrFallback clock stringify [''foo'', ''bar''] detected)
                    (enumerate 0 rows)) = []"
    by (simp add: filter_empty_conv)
  with d assms(1) have 1: "parseCSV clock stringify (Complete (Some rows) (Some [''foo'', ''bar''])) Auto = Inr []"
    by (simp add: parseCSV_def Let_def)
  have 2: "\<forall>row \<in> set rows. \<exists>e. parseLogRow row [''foo'', ''bar''] Auto = Inr e
               \<and> content e = [] \<and> (component e = ''unknown'' \<or> component e = ''sshd'')"
    using assms(2) foo_bar_row by blast
  from 1 2 show ?thesis ..
qed

text \<open>
  C7, as stated: the result holds one record per row, its content the serialized row.
  For the single row \<open>{foo: "hello", bar: "world"}\<close> no parser throws, so the fallback
  record with the serialized row is never built; the parsed record has empty content
  and is filtered out: the result is the empty list.
\<close>

theorem unknown_headers_no_records_counterexample:
  "parseCSV (\<lambda>i. ''2026-01-01T00:00:00.000Z'') (\<lambda>row. ''{foo:hello,bar:world}'')
     (Complete (Some [Fields [''foo'' \<mapsto> ''hello'', ''bar'' \<mapsto> ''world'']])
               (Some [''foo'', ''bar''])) Auto
   = Inr []"
  by code_simp

theorem unknown_headers_rows_are_dropped_witness:
  "[Fields [''foo'' \<mapsto> ''hello'', ''bar'' \<mapsto> ''world'']] \<noteq> []
   \<and> readableWithin [''foo'', ''bar''] (Fields [''foo'' \<mapsto> ''hello'', ''bar'' \<mapsto> ''world''])
   \<and> parseCSV (\<lambda>i. ''2026-01-01T00:00:00.000Z'') (\<lambda>row. ''{foo:hello,bar:world}'')
        (Complete (Some [Fields [''foo'' \<mapsto> ''hello'', ''bar'' \<mapsto> ''world'']])
                  (Some [''foo'', ''bar''])) Auto
      = Inr []"
proof -
  have r: "readableWithin [''foo'', ''bar''] (Fields [''foo'' \<mapsto> ''hello'', ''bar'' \<mapsto> ''world''])"
    by (simp add: readableWithin_def)
  then have h: "\<forall>row \<in> set [Fields [''foo'' \<mapsto> ''hello'', ''bar'' \<mapsto> ''world'']].
         readableWithin [''foo'', ''bar''] row"
    by simp
  have n: "[Fields [''foo'' \<mapsto> ''hello'', ''bar'' \<mapsto> ''world'']] \<noteq> []" by simp
  from unknown_headers_rows_are_dropped [OF n h, THEN conjunct1] n r
  show ?thesis by (simp only: simp_thms)
qed

end
